theory Spec2Isabelle
  imports Complex_Main
begin

section \<open>The tick-driven position engine of data-science.py\<close>

text \<open>
  The engine of \<^verbatim>\<open>src/data-science.py\<close>: \<^verbatim>\<open>Position\<close>, \<^verbatim>\<open>StrategyManager\<close>,
  \<^verbatim>\<open>PortfolioEvaluator\<close> and \<^verbatim>\<open>ExecutionSimulator\<close>.

  Conventions of the embedding.
  \<^item> Prices, sizes and profits are Python floats; they are modelled as exact rationals
    (\<^typ>\<open>rat\<close>). Rounding, infinities and NaN are outside the model.
  \<^item> \<^verbatim>\<open>Position\<close> objects are mutable and shared between the active list and the trade
    history, so they live in a store: \<open>heap\<close> is the list of all objects ever created and a
    reference is an index into it. A new object gets the next free index.
  \<^item> A Python \<^verbatim>\<open>dict\<close> is an association list in insertion order.
  \<^item> A raised exception is a value of type \<open>error\<close>. A method that mutates returns the
    state it leaves behind together with its outcome, so that a raise after a partial
    mutation keeps the mutation.
  \<^item> A strategy function is a pure function of the tick and of the strategy's positions:
    it returns a signal, a falsy value (\<open>None\<close>), or raises.
\<close>

subsection \<open>Data\<close>

type_synonym ref = nat
type_synonym timestamp = int

datatype error =
    ValueError string
  | KeyError string
  | TypeError
  | OtherError string

text \<open>A tick is a dict; each of the three keys the engine reads may be absent.\<close>

record tick =
  tick_symbol :: "string option"
  tick_price :: "rat option"
  tick_timestamp :: "timestamp option"

text \<open>
  The dataclass \<^verbatim>\<open>Position\<close> (lines 31-41). \<open>current_price\<close> defaults to \<^verbatim>\<open>None\<close>. The
  last three fields are the attributes \<^verbatim>\<open>_close_position\<close> adds to the object; they are
  not dataclass fields.
\<close>

record position =
  symbol :: string
  entry_price :: rat
  entry_time :: timestamp
  direction :: int
  size_p :: rat
  strategy_id :: string
  current_price :: "rat option"
  max_favorable_excursion :: rat
  max_adverse_excursion :: rat
  exit_price :: "rat option"
  exit_time :: "timestamp option"
  exit_reason :: "string option"

text \<open>A signal is a dict with the keys \<^verbatim>\<open>action\<close> and \<^verbatim>\<open>size\<close>.\<close>

record signal =
  action :: string
  signal_size :: rat

type_synonym evaluator = "tick \<Rightarrow> position list \<Rightarrow> error + signal option"

record history_entry =
  h_action :: string
  h_timestamp :: timestamp
  h_position :: ref
  h_reason :: "string option"

record metrics =
  total_positions :: nat
  net_exposure :: rat
  total_profit_loss :: rat
  max_drawdown :: rat
  strategy_correlation :: "(string \<times> rat) list"

text \<open>
  One record for the three cooperating objects: the \<^verbatim>\<open>StrategyManager\<close> (\<open>strategies\<close>,
  \<open>active_positions\<close>), the \<^verbatim>\<open>PortfolioEvaluator\<close> (\<open>risk_settings\<close>) and the
  \<^verbatim>\<open>ExecutionSimulator\<close> (\<open>trade_history\<close>), wired to the same manager.
\<close>

record engine =
  strategies :: "(string \<times> evaluator) list"
  heap :: "position list"
  active_positions :: "ref list"
  risk_settings :: "(string \<times> rat) list"
  trade_history :: "history_entry list"

subsection \<open>Python built-ins\<close>

text \<open>\<^verbatim>\<open>d[k] = v\<close>: an existing key keeps its slot, a new key goes to the end.\<close>

fun dict_set :: "('k \<times> 'v) list \<Rightarrow> 'k \<Rightarrow> 'v \<Rightarrow> ('k \<times> 'v) list" where
  "dict_set [] k v = [(k, v)]"
| "dict_set ((k', v') # d) k v =
     (if k' = k then (k, v) # d else (k', v') # dict_set d k v)"

text \<open>\<^verbatim>\<open>sum(xs)\<close>: a left fold from 0.\<close>

definition py_sum :: "rat list \<Rightarrow> rat" where
  "py_sum xs = foldl (+) 0 xs"

text \<open>Truth value of an optional float: \<^verbatim>\<open>None\<close> and \<^verbatim>\<open>0.0\<close> are falsy.\<close>

definition truthy :: "rat option \<Rightarrow> bool" where
  "truthy c = (case c of None \<Rightarrow> False | Some x \<Rightarrow> x \<noteq> 0)"

text \<open>
  Equality of two \<^verbatim>\<open>Position\<close> objects, as the dataclass generates it: the tuples of the
  nine fields are compared.
\<close>

definition position_eq :: "position \<Rightarrow> position \<Rightarrow> bool" where
  "position_eq p q \<longleftrightarrow>
     symbol p = symbol q \<and> entry_price p = entry_price q \<and> entry_time p = entry_time q \<and>
     direction p = direction q \<and> size_p p = size_p q \<and> strategy_id p = strategy_id q \<and>
     current_price p = current_price q \<and>
     max_favorable_excursion p = max_favorable_excursion q \<and>
     max_adverse_excursion p = max_adverse_excursion q"

text \<open>
  \<^verbatim>\<open>xs.remove(x)\<close>: drops the first element that is \<^verbatim>\<open>x\<close> or equal to it; \<open>None\<close> when
  there is none (Python raises \<^verbatim>\<open>ValueError\<close>).
\<close>

fun list_remove :: "position list \<Rightarrow> ref \<Rightarrow> ref list \<Rightarrow> ref list option" where
  "list_remove h a [] = None"
| "list_remove h a (b # bs) =
     (if b = a \<or> position_eq (h ! b) (h ! a) then Some bs
      else map_option ((#) b) (list_remove h a bs))"

subsection \<open>StrategyManager\<close>

definition register_strategy :: "engine \<Rightarrow> string \<Rightarrow> evaluator \<Rightarrow> engine" where
  "register_strategy s sid strategy_func =
     s\<lparr>strategies := dict_set (strategies s) sid strategy_func\<rparr>"

definition positions_of :: "engine \<Rightarrow> position list" where
  "positions_of s = map ((!) (heap s)) (active_positions s)"

definition get_strategy_positions :: "engine \<Rightarrow> string \<Rightarrow> position list" where
  "get_strategy_positions s sid = filter (\<lambda>p. strategy_id p = sid) (positions_of s)"

text \<open>The loop of \<^verbatim>\<open>process_tick\<close> (lines 55-58): a raise of a strategy ends it.\<close>

fun dispatch :: "engine \<Rightarrow> tick \<Rightarrow> (string \<times> evaluator) list \<Rightarrow> error + (string \<times> signal) list" where
  "dispatch s t [] = Inr []"
| "dispatch s t ((sid, strategy_func) # rest) =
     (case strategy_func t (get_strategy_positions s sid) of
        Inl e \<Rightarrow> Inl e
      | Inr sg \<Rightarrow>
          (case dispatch s t rest of
             Inl e \<Rightarrow> Inl e
           | Inr signals \<Rightarrow>
               Inr ((case sg of None \<Rightarrow> [] | Some g \<Rightarrow> [(sid, g)]) @ signals)))"

definition process_tick :: "engine \<Rightarrow> tick \<Rightarrow> error + (string \<times> signal) list" where
  "process_tick s t = dispatch s t (strategies s)"

text \<open>The expression of lines 72, 110 and 128, at a current price \<open>c\<close>.\<close>

definition profit_loss :: "rat \<Rightarrow> position \<Rightarrow> rat" where
  "profit_loss c p = (c - entry_price p) * of_int (direction p) * size_p p"

text \<open>The body of the loop of \<^verbatim>\<open>update_positions\<close> for a matching position (lines 69-80).\<close>

definition update_position :: "rat \<Rightarrow> position \<Rightarrow> position" where
  "update_position px p =
     (let p1 = p\<lparr>current_price := Some px\<rparr>;
          pl = profit_loss px p1;
          p2 = (if pl > max_favorable_excursion p1
                then p1\<lparr>max_favorable_excursion := pl\<rparr> else p1);
          p3 = (if pl < max_adverse_excursion p2
                then p2\<lparr>max_adverse_excursion := pl\<rparr> else p2)
      in p3)"

fun update_loop :: "tick \<Rightarrow> ref list \<Rightarrow> position list \<Rightarrow> position list \<times> error option" where
  "update_loop t [] h = (h, None)"
| "update_loop t (a # as) h =
     (if Some (symbol (h ! a)) = tick_symbol t
      then (case tick_price t of
              None \<Rightarrow> (h, Some (KeyError ''price''))
            | Some px \<Rightarrow> update_loop t as (h[a := update_position px (h ! a)]))
      else update_loop t as h)"

definition update_positions :: "engine \<Rightarrow> tick \<Rightarrow> engine \<times> error option" where
  "update_positions s t =
     (case update_loop t (active_positions s) (heap s) of (h, r) \<Rightarrow> (s\<lparr>heap := h\<rparr>, r))"

subsection \<open>PortfolioEvaluator\<close>

fun check_settings :: "(string \<times> rat) list \<Rightarrow> string list \<Rightarrow> error option" where
  "check_settings rs [] = None"
| "check_settings rs (setting # others) =
     (if map_of rs setting = None
      then Some (ValueError (''Missing required risk setting: '' @ setting))
      else check_settings rs others)"

definition PortfolioEvaluator_init :: "(string \<times> rat) list \<Rightarrow> error + (string \<times> rat) list" where
  "PortfolioEvaluator_init rs =
     (case check_settings rs [''mfe_exit_threshold''] of
        Some e \<Rightarrow> Inl e
      | None \<Rightarrow> Inr rs)"

text \<open>Lines 99-103: the groups, keyed by symbol, in the order the symbols are first seen.\<close>

definition group_step :: "position list \<Rightarrow> (string \<times> ref list) list \<Rightarrow> ref \<Rightarrow> (string \<times> ref list) list" where
  "group_step h g a =
     (let smb = symbol (h ! a);
          g1 = (if map_of g smb = None then dict_set g smb [] else g)
      in case map_of g1 smb of
           Some l \<Rightarrow> dict_set g1 smb (l @ [a])
         | None \<Rightarrow> g1)"

definition symbol_groups :: "position list \<Rightarrow> ref list \<Rightarrow> (string \<times> ref list) list" where
  "symbol_groups h refs = foldl (group_step h) [] refs"

text \<open>
  The generator of lines 110-111: the terms of the sum, up to the first position whose
  \<open>current_price\<close> is \<^verbatim>\<open>None\<close>, where the subtraction raises \<^verbatim>\<open>TypeError\<close>.
\<close>

fun pl_terms :: "position list \<Rightarrow> error + rat list" where
  "pl_terms [] = Inr []"
| "pl_terms (p # ps) =
     (case current_price p of
        None \<Rightarrow> Inl TypeError
      | Some c \<Rightarrow>
          (case pl_terms ps of
             Inl e \<Rightarrow> Inl e
           | Inr xs \<Rightarrow> Inr (profit_loss c p # xs)))"

text \<open>One round of the loop of lines 107-117.\<close>

definition evaluate_group :: "engine \<Rightarrow> ref list \<Rightarrow> error + (ref \<times> string) list" where
  "evaluate_group s pos_group =
     (let ps = map ((!) (heap s)) pos_group;
          total_mfe = py_sum (map max_favorable_excursion ps)
      in case pl_terms ps of
           Inl e \<Rightarrow> Inl e
         | Inr xs \<Rightarrow>
             (let current_pl = py_sum xs
              in if total_mfe > 0
                 then (case map_of (risk_settings s) ''mfe_exit_threshold'' of
                         None \<Rightarrow> Inl (KeyError ''mfe_exit_threshold'')
                       | Some th \<Rightarrow>
                           if current_pl < total_mfe * (1 - th)
                           then Inr (map (\<lambda>a. (a, ''MFE_TRAILING_STOP'')) pos_group)
                           else Inr [])
                 else Inr []))"

fun evaluate_groups :: "engine \<Rightarrow> (string \<times> ref list) list \<Rightarrow> error + (ref \<times> string) list" where
  "evaluate_groups s [] = Inr []"
| "evaluate_groups s ((smb, pos_group) # gs) =
     (case evaluate_group s pos_group of
        Inl e \<Rightarrow> Inl e
      | Inr sigs \<Rightarrow>
          (case evaluate_groups s gs of
             Inl e \<Rightarrow> Inl e
           | Inr others \<Rightarrow> Inr (sigs @ others)))"

definition evaluate_exit_conditions :: "engine \<Rightarrow> error + (ref \<times> string) list" where
  "evaluate_exit_conditions s =
     (if active_positions s = [] then Inr []
      else evaluate_groups s (symbol_groups (heap s) (active_positions s)))"

text \<open>Lines 128-129: the terms of \<^verbatim>\<open>total_profit_loss\<close>, filtered by \<^verbatim>\<open>if p.current_price\<close>.\<close>

fun priced_pl_terms :: "position list \<Rightarrow> rat list" where
  "priced_pl_terms [] = []"
| "priced_pl_terms (p # ps) =
     (if truthy (current_price p)
      then (case current_price p of
              Some c \<Rightarrow> profit_loss c p # priced_pl_terms ps
            | None \<Rightarrow> priced_pl_terms ps)
      else priced_pl_terms ps)"

definition calculate_max_drawdown :: "engine \<Rightarrow> rat" where
  "calculate_max_drawdown s = 0"

definition calculate_strategy_correlation :: "engine \<Rightarrow> (string \<times> rat) list" where
  "calculate_strategy_correlation s = []"

definition calculate_portfolio_metrics :: "engine \<Rightarrow> metrics" where
  "calculate_portfolio_metrics s =
     (let positions = positions_of s
      in \<lparr>total_positions = length positions,
          net_exposure = py_sum (map (\<lambda>p. size_p p * of_int (direction p)) positions),
          total_profit_loss = py_sum (priced_pl_terms positions),
          max_drawdown = calculate_max_drawdown s,
          strategy_correlation = calculate_strategy_correlation s\<rparr>)"

subsection \<open>ExecutionSimulator\<close>

text \<open>
  The constructor call of lines 180-187: the six arguments, and the defaults of the
  dataclass for the rest.
\<close>

definition Position_init :: "string \<Rightarrow> rat \<Rightarrow> timestamp \<Rightarrow> int \<Rightarrow> rat \<Rightarrow> string \<Rightarrow> position" where
  "Position_init smb px ts dir sz sid =
     \<lparr>symbol = smb, entry_price = px, entry_time = ts, direction = dir,
      size_p = sz, strategy_id = sid, current_price = None,
      max_favorable_excursion = 0, max_adverse_excursion = 0,
      exit_price = None, exit_time = None, exit_reason = None\<rparr>"

definition open_position :: "engine \<Rightarrow> string \<Rightarrow> tick \<Rightarrow> rat \<Rightarrow> int \<Rightarrow> engine \<times> error option" where
  "open_position s sid t sz dir =
     (case tick_symbol t of
        None \<Rightarrow> (s, Some (KeyError ''symbol''))
      | Some smb \<Rightarrow>
     (case tick_price t of
        None \<Rightarrow> (s, Some (KeyError ''price''))
      | Some px \<Rightarrow>
     (case tick_timestamp t of
        None \<Rightarrow> (s, Some (KeyError ''timestamp''))
      | Some ts \<Rightarrow>
          (let p = Position_init smb px ts dir sz sid;
               a = length (heap s)
           in (s\<lparr>heap := heap s @ [p],
                 active_positions := active_positions s @ [a],
                 trade_history := trade_history s @
                   [\<lparr>h_action = ''OPEN'', h_timestamp = ts, h_position = a,
                     h_reason = None\<rparr>]\<rparr>, None)))))"

definition close_position :: "engine \<Rightarrow> ref \<Rightarrow> tick \<Rightarrow> string \<Rightarrow> engine \<times> error option" where
  "close_position s a t reason =
     (case tick_price t of
        None \<Rightarrow> (s, Some (KeyError ''price''))
      | Some px \<Rightarrow>
     (let s1 = s\<lparr>heap := (heap s)[a := (heap s ! a)\<lparr>exit_price := Some px\<rparr>]\<rparr>
      in case tick_timestamp t of
           None \<Rightarrow> (s1, Some (KeyError ''timestamp''))
         | Some ts \<Rightarrow>
     (let s2 = s1\<lparr>heap := (heap s1)[a := (heap s1 ! a)\<lparr>exit_time := Some ts,
                                                        exit_reason := Some reason\<rparr>]\<rparr>
      in case list_remove (heap s2) a (active_positions s2) of
           None \<Rightarrow> (s2, Some (ValueError ''list.remove(x): x not in list''))
         | Some act \<Rightarrow>
             (s2\<lparr>active_positions := act,
                 trade_history := trade_history s2 @
                   [\<lparr>h_action = ''CLOSE'', h_timestamp = ts, h_position = a,
                     h_reason = Some reason\<rparr>]\<rparr>, None))))"

text \<open>Lines 154-157.\<close>

definition tick_has :: "tick \<Rightarrow> string \<Rightarrow> bool" where
  "tick_has t field =
     (if field = ''symbol'' then tick_symbol t \<noteq> None
      else if field = ''price'' then tick_price t \<noteq> None
      else if field = ''timestamp'' then tick_timestamp t \<noteq> None
      else False)"

fun check_fields :: "tick \<Rightarrow> string list \<Rightarrow> error option" where
  "check_fields t [] = None"
| "check_fields t (field # others) =
     (if \<not> tick_has t field
      then Some (ValueError (''Missing required tick field: '' @ field))
      else check_fields t others)"

text \<open>Lines 164-165.\<close>

fun close_all :: "engine \<Rightarrow> tick \<Rightarrow> (ref \<times> string) list \<Rightarrow> engine \<times> error option" where
  "close_all s t [] = (s, None)"
| "close_all s t ((a, reason) # others) =
     (case close_position s a t reason of
        (s', Some e) \<Rightarrow> (s', Some e)
      | (s', None) \<Rightarrow> close_all s' t others)"

text \<open>Lines 169-173.\<close>

fun open_all :: "engine \<Rightarrow> tick \<Rightarrow> (string \<times> signal) list \<Rightarrow> engine \<times> error option" where
  "open_all s t [] = (s, None)"
| "open_all s t ((sid, sg) # others) =
     (if action sg = ''BUY''
      then (case open_position s sid t (signal_size sg) 1 of
              (s', Some e) \<Rightarrow> (s', Some e)
            | (s', None) \<Rightarrow> open_all s' t others)
      else if action sg = ''SELL''
      then (case open_position s sid t (signal_size sg) (- 1) of
              (s', Some e) \<Rightarrow> (s', Some e)
            | (s', None) \<Rightarrow> open_all s' t others)
      else open_all s t others)"

definition process_tick_data :: "engine \<Rightarrow> tick \<Rightarrow> engine \<times> (error + metrics)" where
  "process_tick_data s t =
     (case check_fields t [''symbol'', ''price'', ''timestamp''] of
        Some e \<Rightarrow> (s, Inl e)
      | None \<Rightarrow>
     (case update_positions s t of
        (s1, Some e) \<Rightarrow> (s1, Inl e)
      | (s1, None) \<Rightarrow>
     (case evaluate_exit_conditions s1 of
        Inl e \<Rightarrow> (s1, Inl e)
      | Inr exit_signals \<Rightarrow>
     (case close_all s1 t exit_signals of
        (s2, Some e) \<Rightarrow> (s2, Inl e)
      | (s2, None) \<Rightarrow>
     (case process_tick s2 t of
        Inl e \<Rightarrow> (s2, Inl e)
      | Inr new_signals \<Rightarrow>
     (case open_all s2 t new_signals of
        (s3, Some e) \<Rightarrow> (s3, Inl e)
      | (s3, None) \<Rightarrow> (s3, Inr (calculate_portfolio_metrics s3))))))))"

text \<open>
  A fresh engine: \<^verbatim>\<open>StrategyManager()\<close>, \<^verbatim>\<open>PortfolioEvaluator(manager, risk_settings)\<close>,
  \<^verbatim>\<open>ExecutionSimulator(manager, evaluator)\<close>.
\<close>

definition new_engine :: "(string \<times> rat) list \<Rightarrow> error + engine" where
  "new_engine rs =
     (case PortfolioEvaluator_init rs of
        Inl e \<Rightarrow> Inl e
      | Inr rs' \<Rightarrow>
          Inr \<lparr>strategies = [], heap = [], active_positions = [], risk_settings = rs',
               trade_history = []\<rparr>)"

subsection \<open>States and relations used by the statements\<close>

text \<open>A reference is valid when it points into the store; every Python reference is.\<close>

definition wf :: "engine \<Rightarrow> bool" where
  "wf s \<longleftrightarrow> list_all (\<lambda>a. a < length (heap s)) (active_positions s)"

text \<open>
  What a caller can do to an engine: register a strategy, or process a tick (and go on
  after a raise with the state the raise left behind).
\<close>

inductive steps :: "engine \<Rightarrow> engine \<Rightarrow> bool" where
  steps_refl: "steps s s"
| steps_register: "steps s s' \<Longrightarrow> steps s (register_strategy s' sid f)"
| steps_tick: "steps s s' \<Longrightarrow> steps s (fst (process_tick_data s' t))"

text \<open>The order in which the elements of a list are first seen.\<close>

fun first_seen :: "'a list \<Rightarrow> 'a list" where
  "first_seen [] = []"
| "first_seen (x # xs) = x # filter (\<lambda>y. y \<noteq> x) (first_seen xs)"






text \<open>Example data.\<close>

definition mk_tick :: "string \<Rightarrow> rat \<Rightarrow> timestamp \<Rightarrow> tick" where
  "mk_tick smb px ts = \<lparr>tick_symbol = Some smb, tick_price = Some px, tick_timestamp = Some ts\<rparr>"

definition mk_position :: "string \<Rightarrow> rat \<Rightarrow> int \<Rightarrow> rat \<Rightarrow> string \<Rightarrow> position" where
  "mk_position smb px dir sz sid =
     \<lparr>symbol = smb, entry_price = px, entry_time = 0, direction = dir, size_p = sz,
      strategy_id = sid, current_price = None, max_favorable_excursion = 0,
      max_adverse_excursion = 0, exit_price = None, exit_time = None, exit_reason = None\<rparr>"

text \<open>A strategy that buys one unit of instrument A when it holds no position.\<close>

definition buy_A_once :: evaluator where
  "buy_A_once t ps =
     (if ps = [] \<and> tick_symbol t = Some ''A''
      then Inr (Some \<lparr>action = ''BUY'', signal_size = 1\<rparr>)
      else Inr None)"

text \<open>A strategy that always buys, one that never does, and one that raises.\<close>

definition always_buy :: evaluator where
  "always_buy t ps = Inr (Some \<lparr>action = ''BUY'', signal_size = 1\<rparr>)"

definition never_signal :: evaluator where
  "never_signal t ps = Inr None"

definition raising :: evaluator where
  "raising t ps = Inl (OtherError ''boom'')"

definition engine_with :: "(string \<times> evaluator) list \<Rightarrow> position list \<Rightarrow> engine" where
  "engine_with strats ps =
     \<lparr>strategies = strats, heap = ps, active_positions = [0..<length ps],
      risk_settings = [(''mfe_exit_threshold'', 1 / 2)], trade_history = []\<rparr>"

text \<open>The first required field a tick lacks, in the order the fields are checked.\<close>

definition first_missing :: "tick \<Rightarrow> string" where
  "first_missing t =
     (if tick_symbol t = None then ''symbol''
      else if tick_price t = None then ''price'' else ''timestamp'')"

text \<open>
  The engine after a strategy opened a long of size 1 at price 5 and the next tick of the
  instrument came at price 0.
\<close>

definition zero_price_engine :: engine where
  "zero_price_engine =
     fst (process_tick_data
            (fst (process_tick_data (engine_with [(''S'', buy_A_once)] []) (mk_tick ''A'' 5 1)))
            (mk_tick ''A'' 0 2))"



text \<open>What one registered strategy contributes to the result of a dispatch.\<close>

definition emitted :: "engine \<Rightarrow> tick \<Rightarrow> string \<times> evaluator \<Rightarrow> (string \<times> signal) list" where
  "emitted s t e =
     (case snd e t (get_strategy_positions s (fst e)) of
        Inr (Some sg) \<Rightarrow> [(fst e, sg)]
      | _ \<Rightarrow> [])"

text \<open>Strategies A then B registered on an empty engine; and an engine whose first strategy raises.\<close>

definition two_strategies :: engine where
  "two_strategies =
     register_strategy (register_strategy (engine_with [] []) ''A'' never_signal) ''B'' always_buy"

definition raise_then_buy :: engine where
  "raise_then_buy = engine_with [(''A'', raising), (''B'', always_buy)] []"

text \<open>
  A store \<open>h'\<close> that holds the objects of \<open>h\<close>, each with an MFE at least and an MAE at
  most what it was.
\<close>

definition heap_mono :: "position list \<Rightarrow> position list \<Rightarrow> bool" where
  "heap_mono h h' \<longleftrightarrow>
     length h' = length h \<and>
     (\<forall>a < length h.
        max_favorable_excursion (h ! a) \<le> max_favorable_excursion (h' ! a) \<and>
        max_adverse_excursion (h' ! a) \<le> max_adverse_excursion (h ! a))"

text \<open>A position as the constructor leaves it.\<close>

definition fresh :: "position \<Rightarrow> bool" where
  "fresh p \<longleftrightarrow>
     current_price p = None \<and> max_favorable_excursion p = 0 \<and> max_adverse_excursion p = 0 \<and>
     exit_price p = None \<and> exit_time p = None \<and> exit_reason p = None"

text \<open>The history records \<open>close_position\<close> and \<open>open_position\<close> append.\<close>

definition close_entry :: "timestamp \<Rightarrow> ref \<times> string \<Rightarrow> history_entry" where
  "close_entry ts x =
     \<lparr>h_action = ''CLOSE'', h_timestamp = ts, h_position = fst x, h_reason = Some (snd x)\<rparr>"

definition open_entry :: "timestamp \<Rightarrow> ref \<Rightarrow> history_entry" where
  "open_entry ts a = \<lparr>h_action = ''OPEN'', h_timestamp = ts, h_position = a, h_reason = None\<rparr>"

text \<open>
  The engine right after a strategy opened a long on instrument A at 100 (the position has
  seen no tick yet), and the engine holding the long of size 1 entered at 100 after the ticks
  at 110 and 95.
\<close>

definition after_open_A :: engine where
  "after_open_A =
     fst (process_tick_data (engine_with [(''S'', buy_A_once)] []) (mk_tick ''A'' 100 1))"


text \<open>The bounds of the excursions of one position.\<close>

definition excursions_ok :: "position \<Rightarrow> bool" where
  "excursions_ok p \<longleftrightarrow> 0 \<le> max_favorable_excursion p \<and> max_adverse_excursion p \<le> 0"

text \<open>The engine of \<open>after_open_A\<close> after a tick of A at 110, and after a further one at 95.\<close>

definition after_tick_110 :: engine where
  "after_tick_110 = fst (process_tick_data after_open_A (mk_tick ''A'' 110 2))"

definition after_ticks_110_95 :: engine where
  "after_ticks_110_95 = fst (process_tick_data after_tick_110 (mk_tick ''A'' 95 3))"

section \<open>Properties\<close>

subsection \<open>Python built-ins\<close>

lemma py_sum_acc: "foldl (+) acc xs = acc + sum_list xs" for acc :: rat
  by (induction xs arbitrary: acc) (simp_all add: add.assoc)

lemma py_sum_sum_list: "py_sum xs = sum_list xs"
  by (simp add: py_sum_def py_sum_acc)

subsection \<open>Validation of the tick\<close>

lemma check_fields_required:
  "check_fields t [''symbol'', ''price'', ''timestamp''] =
     (if tick_symbol t = None \<or> tick_price t = None \<or> tick_timestamp t = None
      then Some (ValueError (''Missing required tick field: '' @ first_missing t))
      else None)"
  by (simp add: tick_has_def first_missing_def)

text \<open>
  Claim C3. A tick that lacks one of the three required fields makes \<open>process_tick_data\<close>
  raise \<^verbatim>\<open>ValueError\<close> (naming the first missing field) and leaves the whole engine as it
  was: the active list, every position object, the trade history.
\<close>

theorem process_tick_data_invalid_tick:
  assumes "tick_symbol t = None \<or> tick_price t = None \<or> tick_timestamp t = None"
  shows "process_tick_data s t =
           (s, Inl (ValueError (''Missing required tick field: '' @ first_missing t)))"
  using assms unfolding process_tick_data_def check_fields_required by auto

theorem process_tick_data_invalid_tick_witness:
  "tick_price \<lparr>tick_symbol = Some ''A'', tick_price = None, tick_timestamp = Some 7\<rparr> = None \<and>
   process_tick_data (engine_with [(''S'', always_buy)] [mk_position ''A'' 100 1 1 ''S''])
       \<lparr>tick_symbol = Some ''A'', tick_price = None, tick_timestamp = Some 7\<rparr> =
     (engine_with [(''S'', always_buy)] [mk_position ''A'' 100 1 1 ''S''],
      Inl (ValueError ''Missing required tick field: price''))"
  using process_tick_data_invalid_tick
    [of "\<lparr>tick_symbol = Some ''A'', tick_price = None, tick_timestamp = Some 7\<rparr>"
        "engine_with [(''S'', always_buy)] [mk_position ''A'' 100 1 1 ''S'']"]
  by (simp add: first_missing_def)

subsection \<open>Construction of the evaluator\<close>



subsection \<open>Portfolio metrics\<close>

lemma priced_pl_terms_eq:
  "priced_pl_terms ps =
     map (\<lambda>p. profit_loss (the (current_price p)) p)
       (filter (\<lambda>p. current_price p \<noteq> None \<and> current_price p \<noteq> Some 0) ps)"
  by (induction ps) (auto simp: truthy_def split: option.splits)

text \<open>
  What the snapshot computes: the count, the net exposure, and the profit summed over the
  positions whose current price is set and is not zero.
\<close>

lemma calculate_portfolio_metrics_eq:
  "total_positions (calculate_portfolio_metrics s) = length (active_positions s)"
  "net_exposure (calculate_portfolio_metrics s) =
     (\<Sum>p\<leftarrow>positions_of s. size_p p * of_int (direction p))"
  "total_profit_loss (calculate_portfolio_metrics s) =
     (\<Sum>p\<leftarrow>filter (\<lambda>p. current_price p \<noteq> None \<and> current_price p \<noteq> Some 0) (positions_of s).
        profit_loss (the (current_price p)) p)"
  by (simp_all add: calculate_portfolio_metrics_def Let_def py_sum_sum_list priced_pl_terms_eq
      positions_of_def)

lemmas run_simps =
  process_tick_data_def engine_with_def mk_tick_def mk_position_def tick_has_def
  update_positions_def update_position_def profit_loss_def
  evaluate_exit_conditions_def symbol_groups_def group_step_def evaluate_group_def py_sum_def
  close_position_def position_eq_def
  process_tick_def get_strategy_positions_def positions_of_def open_position_def
  Position_init_def
  calculate_portfolio_metrics_def calculate_max_drawdown_def
  calculate_strategy_correlation_def truthy_def
  buy_A_once_def always_buy_def never_signal_def raising_def

text \<open>
  Claim C7 at a position whose current price is 0. A long of size 1 entered at 5 has seen a
  tick at price 0, so its current price is known and its unrealized profit is -5; the filter
  \<^verbatim>\<open>if p.current_price\<close> drops it and the snapshot reports a total of 0.
\<close>

theorem total_profit_loss_skips_zero_price:
  "map current_price (positions_of zero_price_engine) = [Some 0] \<and>
   map (profit_loss 0) (positions_of zero_price_engine) = [- 5] \<and>
   calculate_portfolio_metrics zero_price_engine =
     \<lparr>total_positions = 1, net_exposure = 1, total_profit_loss = 0, max_drawdown = 0,
      strategy_correlation = []\<rparr> \<and>
   snd (process_tick_data
          (fst (process_tick_data (engine_with [(''S'', buy_A_once)] []) (mk_tick ''A'' 5 1)))
          (mk_tick ''A'' 0 2)) = Inr (calculate_portfolio_metrics zero_price_engine)"
  by (simp add: zero_price_engine_def run_simps)

subsection \<open>Updating the positions\<close>

lemma update_position_eq:
  "update_position px p =
     p\<lparr>current_price := Some px,
       max_favorable_excursion := max (max_favorable_excursion p) (profit_loss px p),
       max_adverse_excursion := min (max_adverse_excursion p) (profit_loss px p)\<rparr>"
  by (simp add: update_position_def Let_def profit_loss_def max_def min_def)

lemma update_position_symbol [simp]: "symbol (update_position px p) = symbol p"
  by (simp add: update_position_eq)

lemma update_position_idem: "update_position px (update_position px p) = update_position px p"
  by (simp add: update_position_eq profit_loss_def)

text \<open>
  The loop over the active list, for a tick that carries a price: it never raises, and each
  object of the store ends either untouched or updated once.
\<close>

lemma update_loop_priced:
  assumes "tick_price t = Some px"
  shows "snd (update_loop t refs h) = None \<and>
         length (fst (update_loop t refs h)) = length h \<and>
         (\<forall>a < length h. fst (update_loop t refs h) ! a =
            (if a \<in> set refs \<and> Some (symbol (h ! a)) = tick_symbol t
             then update_position px (h ! a) else h ! a))"
proof (induction refs arbitrary: h)
  case Nil
  show ?case by simp
next
  case (Cons b refs)
  show ?case
  proof (cases "Some (symbol (h ! b)) = tick_symbol t")
    case False
    then have "update_loop t (b # refs) h = update_loop t refs h" by simp
    with Cons[of h] False show ?thesis by auto
  next
    case True
    let ?h1 = "h[b := update_position px (h ! b)]"
    from True assms have eq: "update_loop t (b # refs) h = update_loop t refs ?h1" by simp
    have "\<And>a. a < length h \<Longrightarrow> fst (update_loop t refs ?h1) ! a =
            (if a \<in> set (b # refs) \<and> Some (symbol (h ! a)) = tick_symbol t
             then update_position px (h ! a) else h ! a)"
    proof -
      fix a assume a: "a < length h"
      with Cons[of ?h1] have *: "fst (update_loop t refs ?h1) ! a =
            (if a \<in> set refs \<and> Some (symbol (?h1 ! a)) = tick_symbol t
             then update_position px (?h1 ! a) else ?h1 ! a)" by simp
      show "fst (update_loop t refs ?h1) ! a =
            (if a \<in> set (b # refs) \<and> Some (symbol (h ! a)) = tick_symbol t
             then update_position px (h ! a) else h ! a)"
      proof (cases "a = b")
        case True
        with a * \<open>Some (symbol (h ! b)) = tick_symbol t\<close> show ?thesis
          by (simp add: update_position_idem)
      next
        case False
        with a * show ?thesis by simp
      qed
    qed
    with Cons[of ?h1] eq show ?thesis by simp
  qed
qed

lemma update_positions_fields:
  "active_positions (fst (update_positions s t)) = active_positions s"
  "strategies (fst (update_positions s t)) = strategies s"
  "risk_settings (fst (update_positions s t)) = risk_settings s"
  "trade_history (fst (update_positions s t)) = trade_history s"
  by (simp_all add: update_positions_def split_beta)

lemma update_positions_heap:
  assumes "tick_price t = Some px"
  shows "snd (update_positions s t) = None"
    and "length (heap (fst (update_positions s t))) = length (heap s)"
    and "a < length (heap s) \<Longrightarrow> heap (fst (update_positions s t)) ! a =
            (if a \<in> set (active_positions s) \<and> Some (symbol (heap s ! a)) = tick_symbol t
             then update_position px (heap s ! a) else heap s ! a)"
  using update_loop_priced[OF assms, of "active_positions s" "heap s"]
  by (simp_all add: update_positions_def split_beta)

text \<open>
  A tick without a price: the first active position on the tick's instrument makes the loop
  raise \<^verbatim>\<open>KeyError\<close>, before anything is written.
\<close>

lemma update_loop_no_price:
  assumes "tick_price t = None"
  shows "update_loop t refs h =
     (h, if list_ex (\<lambda>a. Some (symbol (h ! a)) = tick_symbol t) refs
         then Some (KeyError ''price'') else None)"
  using assms by (induction refs) simp_all



subsection \<open>Registration and dispatch\<close>

lemma dict_set_keys:
  "map fst (dict_set d k v) = (if k \<in> set (map fst d) then map fst d else map fst d @ [k])"
  by (induction d) (auto simp: rev_image_eqI)

lemma dict_set_new: "k \<notin> set (map fst d) \<Longrightarrow> dict_set d k v = d @ [(k, v)]"
  by (induction d) auto

lemma dict_set_old:
  "distinct (map fst d) \<Longrightarrow> i < length d \<Longrightarrow> fst (d ! i) = k \<Longrightarrow> dict_set d k v = d[i := (k, v)]"
proof (induction d arbitrary: i)
  case Nil
  then show ?case by simp
next
  case (Cons x d)
  show ?case
  proof (cases i)
    case 0
    with Cons.prems show ?thesis by (cases x) simp
  next
    case (Suc j)
    with Cons.prems have "j < length d" "fst (d ! j) = k" by simp_all
    then have "k \<in> set (map fst d)" by (metis length_map nth_map nth_mem)
    moreover from Cons.prems have "fst x \<notin> set (map fst d)" by simp
    ultimately have "fst x \<noteq> k" by blast
    with Cons Suc show ?thesis by (cases x) simp
  qed
qed

lemma dict_set_distinct: "distinct (map fst d) \<Longrightarrow> distinct (map fst (dict_set d k v))"
  by (simp add: dict_set_keys)

lemma dict_set_map_of: "map_of (dict_set d k v) = (map_of d)(k \<mapsto> v)"
  by (induction d) (auto simp: fun_eq_iff)

lemma dispatch_Inr:
  "dispatch s t strats = Inr sigs \<Longrightarrow> sigs = concat (map (emitted s t) strats)"
  by (induction strats arbitrary: sigs)
     (auto simp: emitted_def split: sum.splits option.splits)

lemma dispatch_total:
  "list_all (\<lambda>e. \<exists>r. snd e t (get_strategy_positions s (fst e)) = Inr r) strats \<Longrightarrow>
   \<exists>sigs. dispatch s t strats = Inr sigs"
  by (induction strats) (auto split: sum.splits)

lemma dispatch_raise:
  "list_all (\<lambda>e. \<exists>r. snd e t (get_strategy_positions s (fst e)) = Inr r) pre \<Longrightarrow>
   f t (get_strategy_positions s sid) = Inl e \<Longrightarrow>
   dispatch s t (pre @ (sid, f) # post) = Inl e"
  by (induction pre) (auto split: sum.splits)

lemma dispatch_cong:
  "positions_of s1 = positions_of s2 \<Longrightarrow> dispatch s1 t strats = dispatch s2 t strats"
  by (induction strats) (auto simp: get_strategy_positions_def split: sum.splits)

text \<open>
  Claim C9. Registering a new identifier appends it; registering an identifier again puts
  the new function in the slot the identifier already has; the identifiers stay distinct.
  The result of \<open>process_tick\<close> is a function of the registered strategies, the tick and
  the active positions alone, so two dispatches from the same three give the same sequence.
  When it returns, the sequence holds, in registration order, one pair for each strategy
  whose function returned a signal, and nothing else; and it returns when no strategy
  raises.
\<close>

theorem dispatch_order_deterministic:
  "(distinct (map fst (strategies s)) \<longrightarrow>
      distinct (map fst (strategies (register_strategy s sid f))) \<and>
      (sid \<notin> set (map fst (strategies s)) \<longrightarrow>
         strategies (register_strategy s sid f) = strategies s @ [(sid, f)]) \<and>
      (\<forall>i < length (strategies s). fst (strategies s ! i) = sid \<longrightarrow>
         strategies (register_strategy s sid f) = (strategies s)[i := (sid, f)])) \<and>
   (strategies s1 = strategies s2 \<and> positions_of s1 = positions_of s2 \<longrightarrow>
      process_tick s1 t = process_tick s2 t) \<and>
   (process_tick s t = Inr sigs \<longrightarrow> sigs = concat (map (emitted s t) (strategies s))) \<and>
   (list_all (\<lambda>e. \<exists>r. snd e t (get_strategy_positions s (fst e)) = Inr r) (strategies s) \<longrightarrow>
      process_tick s t = Inr (concat (map (emitted s t) (strategies s))))"
proof -
  have "process_tick s t = Inr (concat (map (emitted s t) (strategies s)))"
    if "list_all (\<lambda>e. \<exists>r. snd e t (get_strategy_positions s (fst e)) = Inr r) (strategies s)"
    using dispatch_total[OF that] dispatch_Inr[of s t "strategies s"]
    by (auto simp: process_tick_def)
  moreover have "process_tick s1 t = process_tick s2 t"
    if "strategies s1 = strategies s2" "positions_of s1 = positions_of s2"
    using that dispatch_cong[of s1 s2 t] by (simp add: process_tick_def)
  ultimately show ?thesis
    by (auto simp: register_strategy_def dict_set_distinct dict_set_new dict_set_old
        process_tick_def dest: dispatch_Inr)
qed

theorem dispatch_order_deterministic_witness:
  "distinct (map fst (strategies two_strategies)) \<and>
   strategies two_strategies = [(''A'', never_signal), (''B'', always_buy)] \<and>
   strategies (register_strategy two_strategies ''A'' raising) =
     [(''A'', raising), (''B'', always_buy)] \<and>
   strategies (register_strategy two_strategies ''C'' raising) =
     [(''A'', never_signal), (''B'', always_buy), (''C'', raising)] \<and>
   process_tick two_strategies (mk_tick ''X'' 10 1) =
     Inr [(''B'', \<lparr>action = ''BUY'', signal_size = 1\<rparr>)] \<and>
   map strategy_id (positions_of (fst (process_tick_data two_strategies (mk_tick ''X'' 10 1))))
     = [''B'']"
proof -
  have s: "strategies two_strategies = [(''A'', never_signal), (''B'', always_buy)]"
    by (simp add: two_strategies_def register_strategy_def engine_with_def)
  have d: "distinct (map fst (strategies two_strategies))"
    by (simp add: s)
  have r: "list_all (\<lambda>e. \<exists>r. snd e (mk_tick ''X'' 10 1)
              (get_strategy_positions two_strategies (fst e)) = Inr r) (strategies two_strategies)"
    by (simp add: s never_signal_def always_buy_def)
  note th = dispatch_order_deterministic
    [where s = two_strategies and t = "mk_tick ''X'' 10 1" and f = raising]
  note reg = th[where sid = "''A''", THEN conjunct1, THEN mp, OF d]
  from reg[THEN conjunct2, THEN conjunct2, rule_format, of 0]
  have 1: "strategies (register_strategy two_strategies ''A'' raising) =
     [(''A'', raising), (''B'', always_buy)]"
    by (simp add: s)
  note regC = th[where sid = "''C''", THEN conjunct1, THEN mp, OF d]
  from regC[THEN conjunct2, THEN conjunct1]
  have 2: "strategies (register_strategy two_strategies ''C'' raising) =
     [(''A'', never_signal), (''B'', always_buy), (''C'', raising)]"
    by (simp add: s)
  from th[where sid = "''C''", THEN conjunct2, THEN conjunct2, THEN conjunct2, THEN mp, OF r]
  have 3: "process_tick two_strategies (mk_tick ''X'' 10 1) =
     Inr [(''B'', \<lparr>action = ''BUY'', signal_size = 1\<rparr>)]"
    by (simp add: s emitted_def never_signal_def always_buy_def)
  have 4: "map strategy_id
      (positions_of (fst (process_tick_data two_strategies (mk_tick ''X'' 10 1)))) = [''B'']"
    by (simp add: two_strategies_def register_strategy_def run_simps)
  from s d 1 2 3 4 show ?thesis by simp
qed

subsection \<open>The store under update, close and open\<close>

lemma heap_mono_refl [simp]: "heap_mono h h"
  by (simp add: heap_mono_def)

lemma heap_mono_trans: "heap_mono h1 h2 \<Longrightarrow> heap_mono h2 h3 \<Longrightarrow> heap_mono h1 h3"
  unfolding heap_mono_def by (metis order_trans)

lemma heap_mono_update:
  assumes "max_favorable_excursion (h ! a) \<le> max_favorable_excursion p"
    and "max_adverse_excursion p \<le> max_adverse_excursion (h ! a)"
  shows "heap_mono h (h[a := p])"
proof -
  have "max_favorable_excursion (h ! b) \<le> max_favorable_excursion (h[a := p] ! b) \<and>
        max_adverse_excursion (h[a := p] ! b) \<le> max_adverse_excursion (h ! b)"
    if "b < length h" for b
    using assms that by (cases "b = a") simp_all
  then show ?thesis by (simp add: heap_mono_def)
qed

lemma update_position_mono:
  "max_favorable_excursion p \<le> max_favorable_excursion (update_position px p)"
  "max_adverse_excursion (update_position px p) \<le> max_adverse_excursion p"
  by (simp_all add: update_position_eq)

lemma update_positions_mono:
  assumes "tick_price t = Some px"
  shows "heap_mono (heap s) (heap (fst (update_positions s t)))"
  using update_positions_heap(2,3)[OF assms, where s = s] update_position_mono
  by (simp add: heap_mono_def)

lemma list_remove_subset: "list_remove h a refs = Some refs' \<Longrightarrow> set refs' \<subseteq> set refs"
  by (induction refs arbitrary: refs') (auto split: if_splits)

lemma exit_fields_twice:
  "h[a := (h[a := (h ! a)\<lparr>exit_price := Some px\<rparr>] ! a)
             \<lparr>exit_time := Some ts, exit_reason := Some reason\<rparr>] =
   h[a := (h ! a)\<lparr>exit_price := Some px, exit_time := Some ts, exit_reason := Some reason\<rparr>]"
  by (cases "a < length h") (simp_all add: list_update_beyond)

lemma close_position_effect:
  assumes "close_position s a t reason = (s', r)"
  shows "heap_mono (heap s) (heap s')"
    and "set (active_positions s') \<subseteq> set (active_positions s)"
    and "strategies s' = strategies s"
    and "risk_settings s' = risk_settings s"
    and "r = None \<Longrightarrow> tick_timestamp t = Some ts \<Longrightarrow>
           trade_history s' = trade_history s @ [close_entry ts (a, reason)]"
proof -
  show "heap_mono (heap s) (heap s')"
  proof (cases "tick_price t")
    case None
    with assms show ?thesis by (simp add: close_position_def)
  next
    case px: (Some px)
    show ?thesis
    proof (cases "tick_timestamp t")
      case None
      with assms px
      have "heap s' = (heap s)[a := (heap s ! a)\<lparr>exit_price := Some px\<rparr>]"
        by (auto simp: close_position_def)
      then show ?thesis by (simp add: heap_mono_update)
    next
      case (Some ts)
      with assms px
      have "heap s' = (heap s)[a := (heap s ! a)\<lparr>exit_price := Some px,
               exit_time := Some ts, exit_reason := Some reason\<rparr>]"
        by (auto simp: close_position_def Let_def exit_fields_twice split: option.splits)
      then show ?thesis by (simp add: heap_mono_update)
    qed
  qed
  show "set (active_positions s') \<subseteq> set (active_positions s)"
    using assms list_remove_subset
    by (fastforce simp: close_position_def Let_def split: option.splits)
  show "strategies s' = strategies s" "risk_settings s' = risk_settings s"
    using assms by (auto simp: close_position_def Let_def split: option.splits)
  show "trade_history s' = trade_history s @ [close_entry ts (a, reason)]"
    if "r = None" "tick_timestamp t = Some ts"
    using assms that
    by (auto simp: close_position_def Let_def close_entry_def split: option.splits)
qed

lemma close_all_effect:
  assumes "close_all s t exits = (s', r)"
  shows "heap_mono (heap s) (heap s') \<and>
         set (active_positions s') \<subseteq> set (active_positions s) \<and>
         strategies s' = strategies s \<and> risk_settings s' = risk_settings s \<and>
         (r = None \<longrightarrow> tick_timestamp t = Some ts \<longrightarrow>
            trade_history s' = trade_history s @ map (close_entry ts) exits)"
  using assms
proof (induction exits arbitrary: s)
  case Nil
  then show ?case by simp
next
  case (Cons x exits)
  obtain a reason where x: "x = (a, reason)" by (cases x)
  obtain s1 r1 where c: "close_position s a t reason = (s1, r1)" by (cases "close_position s a t reason")
  note e = close_position_effect[OF c]
  show ?case
  proof (cases r1)
    case (Some err)
    with Cons.prems x c have "s' = s1" "r = Some err" by simp_all
    with e(1-4) show ?thesis by simp
  next
    case None
    with Cons.prems x c have "close_all s1 t exits = (s', r)" by simp
    from Cons.IH[OF this] e(1-4) e(5)[OF None] x show ?thesis
      by (auto intro: heap_mono_trans)
  qed
qed

lemma fresh_Position_init [simp]: "fresh (Position_init smb px ts dir sz sid)"
  by (simp add: fresh_def Position_init_def)

lemma open_position_effect:
  assumes "tick_symbol t = Some smb" "tick_price t = Some px" "tick_timestamp t = Some ts"
  shows "snd (open_position s sid t sz dir) = None"
    and "heap (fst (open_position s sid t sz dir)) = heap s @ [Position_init smb px ts dir sz sid]"
    and "active_positions (fst (open_position s sid t sz dir)) =
           active_positions s @ [length (heap s)]"
    and "trade_history (fst (open_position s sid t sz dir)) =
           trade_history s @ [open_entry ts (length (heap s))]"
    and "strategies (fst (open_position s sid t sz dir)) = strategies s"
    and "risk_settings (fst (open_position s sid t sz dir)) = risk_settings s"
  using assms by (simp_all add: open_position_def Let_def open_entry_def)

lemma open_all_effect:
  assumes "tick_symbol t = Some smb" "tick_price t = Some px" "tick_timestamp t = Some ts"
  shows "\<exists>new. list_all fresh new \<and>
           snd (open_all s t sigs) = None \<and>
           heap (fst (open_all s t sigs)) = heap s @ new \<and>
           active_positions (fst (open_all s t sigs)) =
             active_positions s @ [length (heap s)..<length (heap s) + length new] \<and>
           trade_history (fst (open_all s t sigs)) =
             trade_history s @ map (open_entry ts) [length (heap s)..<length (heap s) + length new] \<and>
           strategies (fst (open_all s t sigs)) = strategies s \<and>
           risk_settings (fst (open_all s t sigs)) = risk_settings s"
proof (induction sigs arbitrary: s)
  case Nil
  show ?case by (rule exI[of _ "[]"]) simp
next
  case (Cons x sigs)
  obtain sid sg where x: "x = (sid, sg)" by (cases x)
  have opened: "\<exists>new. list_all fresh new \<and>
           snd (open_all s1 t sigs) = None \<and>
           heap (fst (open_all s1 t sigs)) = heap s @ new \<and>
           active_positions (fst (open_all s1 t sigs)) =
             active_positions s @ [length (heap s)..<length (heap s) + length new] \<and>
           trade_history (fst (open_all s1 t sigs)) =
             trade_history s @ map (open_entry ts) [length (heap s)..<length (heap s) + length new] \<and>
           strategies (fst (open_all s1 t sigs)) = strategies s \<and>
           risk_settings (fst (open_all s1 t sigs)) = risk_settings s"
    if s1: "s1 = fst (open_position s sid t sz dir)" for s1 sz dir
  proof -
    note o = open_position_effect[OF assms, where s = s and sid = sid and sz = sz and dir = dir]
    from Cons.IH[of s1] obtain new where n: "list_all fresh new"
      and r: "snd (open_all s1 t sigs) = None"
      and h: "heap (fst (open_all s1 t sigs)) = heap s1 @ new"
      and a: "active_positions (fst (open_all s1 t sigs)) =
             active_positions s1 @ [length (heap s1)..<length (heap s1) + length new]"
      and th: "trade_history (fst (open_all s1 t sigs)) =
             trade_history s1 @ map (open_entry ts) [length (heap s1)..<length (heap s1) + length new]"
      and st: "strategies (fst (open_all s1 t sigs)) = strategies s1"
              "risk_settings (fst (open_all s1 t sigs)) = risk_settings s1"
      by blast
    let ?p = "Position_init smb px ts dir sz sid"
    have e: "[length (heap s)..<length (heap s) + length (?p # new)] =
             length (heap s) # [length (heap s1)..<length (heap s1) + length new]"
      using o(2) s1 by (simp del: upt_Suc add: upt_conv_Cons)
    have "heap (fst (open_all s1 t sigs)) = heap s @ ?p # new"
      using h o(2) s1 by simp
    moreover have "active_positions (fst (open_all s1 t sigs)) =
        active_positions s @ [length (heap s)..<length (heap s) + length (?p # new)]"
      unfolding e using a o(3) s1 by (simp del: upt_Suc)
    moreover have "trade_history (fst (open_all s1 t sigs)) =
        trade_history s @
          map (open_entry ts) [length (heap s)..<length (heap s) + length (?p # new)]"
      unfolding e using th o(4) s1 by (simp del: upt_Suc)
    moreover have "list_all fresh (?p # new)"
      using n by simp
    ultimately show ?thesis
      using r st o(5,6) s1 by (intro exI[of _ "?p # new"]) (simp del: upt_Suc)
  qed
  show ?case
  proof (cases "action sg = ''BUY''")
    case True
    obtain s1 where s1: "s1 = fst (open_position s sid t (signal_size sg) 1)" by simp
    with open_position_effect(1)[OF assms, where s = s and sid = sid and sz = "signal_size sg" and dir = 1]
    have "open_position s sid t (signal_size sg) 1 = (s1, None)"
      by (simp add: prod_eq_iff)
    with True x have "open_all s t (x # sigs) = open_all s1 t sigs" by simp
    with opened[OF s1] show ?thesis by simp
  next
    case False
    show ?thesis
    proof (cases "action sg = ''SELL''")
      case True
      obtain s1 where s1: "s1 = fst (open_position s sid t (signal_size sg) (- 1))" by simp
      with open_position_effect(1)[OF assms, where s = s and sid = sid and sz = "signal_size sg" and dir = "- 1"]
      have "open_position s sid t (signal_size sg) (- 1) = (s1, None)"
        by (simp add: prod_eq_iff)
      with True False x have "open_all s t (x # sigs) = open_all s1 t sigs" by simp
      with opened[OF s1] show ?thesis by simp
    next
      case nosell: False
      from Cons.IH[of s] False nosell x show ?thesis by simp
    qed
  qed
qed

subsection \<open>The symbol groups\<close>

lemma set_first_seen [simp]: "set (first_seen xs) = set xs"
  by (induction xs) auto

lemma distinct_first_seen [simp]: "distinct (first_seen xs)"
  by (induction xs) auto

lemma first_seen_snoc:
  "first_seen (xs @ [x]) = (if x \<in> set xs then first_seen xs else first_seen xs @ [x])"
proof (induction xs)
  case Nil
  show ?case by simp
next
  case (Cons y xs)
  show ?case
  proof (cases "x = y")
    case True
    with Cons show ?thesis by simp
  next
    case False
    with Cons show ?thesis by simp
  qed
qed

lemma map_of_tabulate:
  "map_of (map (\<lambda>k. (k, m k)) ks) k = (if k \<in> set ks then Some (m k) else None)"
  by (induction ks) auto

lemma dict_set_tabulate_new:
  "k \<notin> set ks \<Longrightarrow> dict_set (map (\<lambda>k. (k, m k)) ks) k v = map (\<lambda>k. (k, m k)) ks @ [(k, v)]"
  by (induction ks) auto

lemma dict_set_tabulate_old:
  "k \<in> set ks \<Longrightarrow> distinct ks \<Longrightarrow>
   dict_set (map (\<lambda>k. (k, m k)) ks) k v = map (\<lambda>k'. (k', if k' = k then v else m k')) ks"
  by (induction ks) auto

lemma group_step_tabulate:
  assumes "distinct ks"
  shows "group_step h (map (\<lambda>k. (k, m k)) ks) a =
     (if symbol (h ! a) \<in> set ks
      then map (\<lambda>k. (k, if k = symbol (h ! a) then m k @ [a] else m k)) ks
      else map (\<lambda>k. (k, m k)) ks @ [(symbol (h ! a), [a])])"
proof (cases "symbol (h ! a) \<in> set ks")
  case True
  with assms show ?thesis
    by (auto simp: group_step_def Let_def map_of_tabulate dict_set_tabulate_old)
next
  case False
  let ?g = "map (\<lambda>k. (k, m k)) ks"
  from False have m: "map_of ?g (symbol (h ! a)) = None"
    by (simp add: map_of_tabulate)
  from False have g1: "dict_set ?g (symbol (h ! a)) [] = ?g @ [(symbol (h ! a), [])]"
    by (simp add: dict_set_tabulate_new)
  from m have m1: "map_of (?g @ [(symbol (h ! a), [])]) (symbol (h ! a)) = Some []"
    by (simp add: map_add_def)
  from False have "dict_set (?g @ [(symbol (h ! a), [])]) (symbol (h ! a)) [a] =
             ?g @ [(symbol (h ! a), [a])]"
    by (induction ks) auto
  with False show ?thesis
    unfolding group_step_def Let_def m g1 by (simp add: m1 del: map_of_append)
qed

lemma symbol_groups_eq:
  "symbol_groups h refs =
     map (\<lambda>k. (k, filter (\<lambda>a. symbol (h ! a) = k) refs))
       (first_seen (map (\<lambda>a. symbol (h ! a)) refs))"
proof (induction refs rule: rev_induct)
  case Nil
  show ?case by (simp add: symbol_groups_def)
next
  case (snoc a refs)
  have "symbol_groups h (refs @ [a]) = group_step h (symbol_groups h refs) a"
    by (simp add: symbol_groups_def)
  also have "\<dots> = group_step h (map (\<lambda>k. (k, filter (\<lambda>a. symbol (h ! a) = k) refs))
       (first_seen (map (\<lambda>a. symbol (h ! a)) refs))) a"
    by (simp only: snoc)
  also have "\<dots> = map (\<lambda>k. (k, filter (\<lambda>a. symbol (h ! a) = k) (refs @ [a])))
       (first_seen (map (\<lambda>a. symbol (h ! a)) (refs @ [a])))"
  proof (cases "symbol (h ! a) \<in> set (map (\<lambda>a. symbol (h ! a)) refs)")
    case True
    then show ?thesis
      by (subst group_step_tabulate) (auto simp: first_seen_snoc)
  next
    case False
    then have "filter (\<lambda>b. symbol (h ! b) = symbol (h ! a)) refs = []"
      by (induction refs) auto
    with False show ?thesis
      by (subst group_step_tabulate) (auto simp: first_seen_snoc)
  qed
  finally show ?case .
qed

subsection \<open>Exit evaluation\<close>

lemma pl_terms_priced:
  "list_all (\<lambda>p. current_price p \<noteq> None) ps \<Longrightarrow>
   pl_terms ps = Inr (map (\<lambda>p. profit_loss (the (current_price p)) p) ps)"
  by (induction ps) auto

lemma pl_terms_unpriced:
  "\<not> list_all (\<lambda>p. current_price p \<noteq> None) ps \<Longrightarrow> pl_terms ps = Inl TypeError"
  by (induction ps) (auto split: option.splits sum.splits)

lemma evaluate_group_unpriced:
  "\<not> list_all (\<lambda>a. current_price (heap s ! a) \<noteq> None) g \<Longrightarrow>
   evaluate_group s g = Inl TypeError"
  by (simp add: evaluate_group_def Let_def pl_terms_unpriced list_all_iff)

lemma evaluate_group_priced:
  assumes "list_all (\<lambda>a. current_price (heap s ! a) \<noteq> None) g"
    and "map_of (risk_settings s) ''mfe_exit_threshold'' = Some th"
  shows "evaluate_group s g =
     Inr (if (\<Sum>a\<leftarrow>g. max_favorable_excursion (heap s ! a)) > 0 \<and>
             (\<Sum>a\<leftarrow>g. (the (current_price (heap s ! a)) - entry_price (heap s ! a))
                       * of_int (direction (heap s ! a)) * size_p (heap s ! a))
               < (\<Sum>a\<leftarrow>g. max_favorable_excursion (heap s ! a)) * (1 - th)
          then map (\<lambda>a. (a, ''MFE_TRAILING_STOP'')) g else [])"
proof -
  from assms(1) have "pl_terms (map ((!) (heap s)) g) =
      Inr (map (\<lambda>p. profit_loss (the (current_price p)) p) (map ((!) (heap s)) g))"
    by (intro pl_terms_priced) (simp add: list_all_iff)
  with assms(2) show ?thesis
    by (simp add: evaluate_group_def Let_def py_sum_sum_list profit_loss_def comp_def)
qed

lemma evaluate_group_refs:
  "evaluate_group s g = Inr sigs \<Longrightarrow> fst ` set sigs \<subseteq> set g"
  by (auto simp: evaluate_group_def Let_def split: sum.splits if_splits option.splits)

lemma evaluate_groups_refs:
  "evaluate_groups s gs = Inr sigs \<Longrightarrow> fst ` set sigs \<subseteq> \<Union> (set ` snd ` set gs)"
proof (induction gs arbitrary: sigs)
  case Nil
  then show ?case by simp
next
  case (Cons x gs)
  obtain k g where x: "x = (k, g)" by (cases x)
  from Cons.prems x obtain s1 s2 where 1: "evaluate_group s g = Inr s1"
    and 2: "evaluate_groups s gs = Inr s2" and 3: "sigs = s1 @ s2"
    by (auto split: sum.splits)
  from evaluate_group_refs[OF 1] Cons.IH[OF 2] 3 x show ?case by auto
qed

lemma evaluate_exit_conditions_refs:
  assumes "evaluate_exit_conditions s = Inr sigs"
  shows "fst ` set sigs \<subseteq> set (active_positions s)"
proof (cases "active_positions s = []")
  case True
  with assms show ?thesis by (simp add: evaluate_exit_conditions_def)
next
  case False
  with assms have "evaluate_groups s (symbol_groups (heap s) (active_positions s)) = Inr sigs"
    by (simp add: evaluate_exit_conditions_def)
  from evaluate_groups_refs[OF this] show ?thesis
    by (auto simp: symbol_groups_eq)
qed


lemma evaluate_groups_unpriced:
  assumes "map_of (risk_settings s) ''mfe_exit_threshold'' = Some th"
    and "\<exists>g \<in> snd ` set gs. \<not> list_all (\<lambda>a. current_price (heap s ! a) \<noteq> None) g"
  shows "evaluate_groups s gs = Inl TypeError"
  using assms(2)
proof (induction gs)
  case Nil
  then show ?case by simp
next
  case (Cons x gs)
  obtain k g where x: "x = (k, g)" by (cases x)
  show ?case
  proof (cases "list_all (\<lambda>a. current_price (heap s ! a) \<noteq> None) g")
    case False
    with x show ?thesis by (simp add: evaluate_group_unpriced)
  next
    case True
    with Cons.prems x have "\<exists>g \<in> snd ` set gs. \<not> list_all (\<lambda>a. current_price (heap s ! a) \<noteq> None) g"
      by auto
    from Cons.IH[OF this] evaluate_group_priced[OF True assms(1)] x show ?thesis
      by simp
  qed
qed


lemma evaluate_exit_conditions_unpriced:
  assumes "map_of (risk_settings s) ''mfe_exit_threshold'' = Some th"
    and "a \<in> set (active_positions s)" and "current_price (heap s ! a) = None"
  shows "evaluate_exit_conditions s = Inl TypeError"
proof -
  let ?g = "filter (\<lambda>b. symbol (heap s ! b) = symbol (heap s ! a)) (active_positions s)"
  from assms(2) have "?g \<in> snd ` set (symbol_groups (heap s) (active_positions s))"
    by (force simp: symbol_groups_eq)
  moreover from assms(2,3) have "\<not> list_all (\<lambda>a. current_price (heap s ! a) \<noteq> None) ?g"
    by (auto simp: list_all_iff)
  ultimately have "evaluate_groups s (symbol_groups (heap s) (active_positions s)) = Inl TypeError"
    using evaluate_groups_unpriced[OF assms(1)] by blast
  with assms(2) show ?thesis
    by (auto simp: evaluate_exit_conditions_def)
qed





lemma tick_other_instrument:
  assumes "wf s" and "map_of (risk_settings s) ''mfe_exit_threshold'' = Some th"
    and "check_fields t [''symbol'', ''price'', ''timestamp''] = None"
    and "a \<in> set (active_positions s)" and "current_price (heap s ! a) = None"
    and "tick_symbol t \<noteq> Some (symbol (heap s ! a))"
  shows "process_tick_data s t = (fst (update_positions s t), Inl TypeError)"
proof -
  from assms(3) have "tick_price t \<noteq> None"
    unfolding check_fields_required by (simp split: if_splits)
  then obtain px where px: "tick_price t = Some px" by auto
  obtain s1 r where u: "update_positions s t = (s1, r)"
    by (cases "update_positions s t")
  with update_positions_heap(1)[OF px, of s] have r: "r = None" by simp
  from assms(1,4) have "a < length (heap s)"
    by (simp add: wf_def list_all_iff)
  with update_positions_heap(3)[OF px, of a s] assms(6) u
  have "heap s1 ! a = heap s ! a" by auto
  moreover from update_positions_fields[of s t] u
  have "active_positions s1 = active_positions s" "risk_settings s1 = risk_settings s"
    by simp_all
  ultimately have "evaluate_exit_conditions s1 = Inl TypeError"
    using assms(2,4,5)
    by (intro evaluate_exit_conditions_unpriced[where a = a and th = th]) simp_all
  with u r assms(3) show ?thesis
    by (simp add: process_tick_data_def)
qed

text \<open>
  Claim C10. Exit evaluation raises \<^verbatim>\<open>TypeError\<close> whenever an active position has no
  current price, and so does \<open>process_tick_data\<close> on a valid tick for another instrument.
  Such a state is reached from a fresh engine by valid ticks only: a strategy opens a
  position on A at the first tick, and the tick for B that follows fails.
\<close>

theorem exit_evaluation_not_total:
  "(map_of (risk_settings s) ''mfe_exit_threshold'' = Some th \<and>
    a \<in> set (active_positions s) \<and> current_price (heap s ! a) = None \<longrightarrow>
      evaluate_exit_conditions s = Inl TypeError) \<and>
   (wf s \<and> map_of (risk_settings s) ''mfe_exit_threshold'' = Some th \<and>
    check_fields t [''symbol'', ''price'', ''timestamp''] = None \<and>
    a \<in> set (active_positions s) \<and> current_price (heap s ! a) = None \<and>
    tick_symbol t \<noteq> Some (symbol (heap s ! a)) \<longrightarrow>
      snd (process_tick_data s t) = Inl TypeError) \<and>
   new_engine [(''mfe_exit_threshold'', 1 / 2)] = Inr (engine_with [] []) \<and>
   register_strategy (engine_with [] []) ''S'' buy_A_once = engine_with [(''S'', buy_A_once)] [] \<and>
   check_fields (mk_tick ''A'' 100 1) [''symbol'', ''price'', ''timestamp''] = None \<and>
   check_fields (mk_tick ''B'' 50 2) [''symbol'', ''price'', ''timestamp''] = None \<and>
   process_tick_data (engine_with [(''S'', buy_A_once)] []) (mk_tick ''A'' 100 1) =
     (after_open_A,
      Inr \<lparr>total_positions = 1, net_exposure = 1, total_profit_loss = 0, max_drawdown = 0,
           strategy_correlation = []\<rparr>) \<and>
   process_tick_data after_open_A (mk_tick ''B'' 50 2) = (after_open_A, Inl TypeError)"
proof -
  have "new_engine [(''mfe_exit_threshold'', 1 / 2)] = Inr (engine_with [] [])"
    by (simp add: new_engine_def PortfolioEvaluator_init_def engine_with_def)
  moreover have "register_strategy (engine_with [] []) ''S'' buy_A_once =
      engine_with [(''S'', buy_A_once)] []"
    by (simp add: register_strategy_def engine_with_def)
  moreover have "check_fields (mk_tick ''A'' 100 1) [''symbol'', ''price'', ''timestamp''] = None"
    "check_fields (mk_tick ''B'' 50 2) [''symbol'', ''price'', ''timestamp''] = None"
    by (simp_all add: mk_tick_def tick_has_def)
  moreover have "process_tick_data (engine_with [(''S'', buy_A_once)] []) (mk_tick ''A'' 100 1) =
     (after_open_A,
      Inr \<lparr>total_positions = 1, net_exposure = 1, total_profit_loss = 0, max_drawdown = 0,
           strategy_correlation = []\<rparr>)"
    by (simp add: after_open_A_def run_simps)
  moreover have "process_tick_data after_open_A (mk_tick ''B'' 50 2) = (after_open_A, Inl TypeError)"
    by (simp add: after_open_A_def run_simps)
  ultimately show ?thesis
    using evaluate_exit_conditions_unpriced[of s th a] tick_other_instrument[of s th t a]
    by simp
qed

theorem exit_evaluation_not_total_witness:
  "map_of (risk_settings after_open_A) ''mfe_exit_threshold'' = Some (1 / 2) \<and>
   0 \<in> set (active_positions after_open_A) \<and>
   current_price (heap after_open_A ! 0) = None \<and>
   evaluate_exit_conditions after_open_A = Inl TypeError"
proof -
  have 1: "map_of (risk_settings after_open_A) ''mfe_exit_threshold'' = Some (1 / 2)"
    and 2: "0 \<in> set (active_positions after_open_A)"
    and 3: "current_price (heap after_open_A ! 0) = None"
    by (simp_all add: after_open_A_def run_simps)
  from exit_evaluation_not_total[where s = after_open_A and th = "1 / 2" and a = 0,
      THEN conjunct1] 1 2 3
  have "evaluate_exit_conditions after_open_A = Inl TypeError" by blast
  with 1 2 3 show ?thesis by simp
qed

subsection \<open>One tick, and runs of ticks\<close>

lemma valid_tick_fields:
  assumes "check_fields t [''symbol'', ''price'', ''timestamp''] = None"
  obtains smb px ts where "tick_symbol t = Some smb" "tick_price t = Some px"
    "tick_timestamp t = Some ts"
proof -
  from assms have "tick_symbol t \<noteq> None \<and> tick_price t \<noteq> None \<and> tick_timestamp t \<noteq> None"
    unfolding check_fields_required by (simp split: if_splits)
  with that show ?thesis by auto
qed

text \<open>
  The course of one tick. Either the tick is invalid and nothing happens; or the positions
  are updated and the tick ends in one of four ways: exit evaluation raises, a close
  raises, a strategy raises, or the tick completes.
\<close>

lemma process_tick_data_course:
  obtains (invalid) e where "process_tick_data s t = (s, Inl e)"
  | (evaluation_raises) smb px ts s1 e where
      "tick_symbol t = Some smb" "tick_price t = Some px" "tick_timestamp t = Some ts"
      "update_positions s t = (s1, None)" "evaluate_exit_conditions s1 = Inl e"
      "process_tick_data s t = (s1, Inl e)"
  | (close_raises) smb px ts s1 exits s2 e where
      "tick_symbol t = Some smb" "tick_price t = Some px" "tick_timestamp t = Some ts"
      "update_positions s t = (s1, None)" "evaluate_exit_conditions s1 = Inr exits"
      "close_all s1 t exits = (s2, Some e)" "process_tick_data s t = (s2, Inl e)"
  | (strategy_raises) smb px ts s1 exits s2 e where
      "tick_symbol t = Some smb" "tick_price t = Some px" "tick_timestamp t = Some ts"
      "update_positions s t = (s1, None)" "evaluate_exit_conditions s1 = Inr exits"
      "close_all s1 t exits = (s2, None)" "process_tick s2 t = Inl e"
      "process_tick_data s t = (s2, Inl e)"
  | (completes) smb px ts s1 exits s2 sigs s3 where
      "tick_symbol t = Some smb" "tick_price t = Some px" "tick_timestamp t = Some ts"
      "update_positions s t = (s1, None)" "evaluate_exit_conditions s1 = Inr exits"
      "close_all s1 t exits = (s2, None)" "process_tick s2 t = Inr sigs"
      "open_all s2 t sigs = (s3, None)"
      "process_tick_data s t = (s3, Inr (calculate_portfolio_metrics s3))"
proof (cases "check_fields t [''symbol'', ''price'', ''timestamp'']")
  case (Some e)
  then have "process_tick_data s t = (s, Inl e)" by (simp add: process_tick_data_def)
  then show ?thesis by (rule invalid)
next
  case None
  then obtain smb px ts where f: "tick_symbol t = Some smb" "tick_price t = Some px"
    "tick_timestamp t = Some ts" by (rule valid_tick_fields)
  obtain s1 r1 where "update_positions s t = (s1, r1)" by (cases "update_positions s t")
  with update_positions_heap(1)[OF f(2), of s] have u: "update_positions s t = (s1, None)"
    by simp
  show ?thesis
  proof (cases "evaluate_exit_conditions s1")
    case (Inl e)
    with None u have "process_tick_data s t = (s1, Inl e)" by (simp add: process_tick_data_def)
    with f u Inl show ?thesis by (rule evaluation_raises)
  next
    case (Inr exits)
    obtain s2 r2 where c: "close_all s1 t exits = (s2, r2)" by (cases "close_all s1 t exits")
    show ?thesis
    proof (cases r2)
      case (Some e)
      with None u Inr c have "process_tick_data s t = (s2, Inl e)"
        by (simp add: process_tick_data_def)
      with f u Inr c Some show ?thesis by (intro close_raises) simp_all
    next
      case r2: None
      show ?thesis
      proof (cases "process_tick s2 t")
        case (Inl e)
        with None u Inr c r2 have "process_tick_data s t = (s2, Inl e)"
          by (simp add: process_tick_data_def)
        with f u Inr c r2 Inl show ?thesis by (intro strategy_raises) simp_all
      next
        case sg: (Inr sigs)
        obtain s3 r3 where "open_all s2 t sigs = (s3, r3)" by (cases "open_all s2 t sigs")
        with open_all_effect[OF f, of s2 sigs] have o: "open_all s2 t sigs = (s3, None)"
          by auto
        with None u Inr c r2 sg
        have "process_tick_data s t = (s3, Inr (calculate_portfolio_metrics s3))"
          by (simp add: process_tick_data_def)
        with f u Inr c r2 sg o show ?thesis by (intro completes) simp_all
      qed
    qed
  qed
qed

lemma process_tick_data_heap:
  "\<exists>h2 new. heap_mono (heap s) h2 \<and> heap (fst (process_tick_data s t)) = h2 @ new \<and>
     list_all fresh new"
proof (cases rule: process_tick_data_course[of s t])
  case (invalid e)
  then show ?thesis by (intro exI[of _ "heap s"] exI[of _ "[]"]) simp
next
  case (evaluation_raises smb px ts s1 e)
  from update_positions_mono[OF evaluation_raises(2), of s] evaluation_raises(4,6)
  show ?thesis by (intro exI[of _ "heap s1"] exI[of _ "[]"]) simp
next
  case (close_raises smb px ts s1 exits s2 e)
  from update_positions_mono[OF close_raises(2), of s] close_raises(4)
  have "heap_mono (heap s) (heap s1)" by simp
  with close_all_effect[OF close_raises(6)] have "heap_mono (heap s) (heap s2)"
    by (blast intro: heap_mono_trans)
  with close_raises(7) show ?thesis by (intro exI[of _ "heap s2"] exI[of _ "[]"]) simp
next
  case (strategy_raises smb px ts s1 exits s2 e)
  from update_positions_mono[OF strategy_raises(2), of s] strategy_raises(4)
  have "heap_mono (heap s) (heap s1)" by simp
  with close_all_effect[OF strategy_raises(6)] have "heap_mono (heap s) (heap s2)"
    by (blast intro: heap_mono_trans)
  with strategy_raises(8) show ?thesis by (intro exI[of _ "heap s2"] exI[of _ "[]"]) simp
next
  case (completes smb px ts s1 exits s2 sigs s3)
  from update_positions_mono[OF completes(2), of s] completes(4)
  have "heap_mono (heap s) (heap s1)" by simp
  with close_all_effect[OF completes(6)] have m: "heap_mono (heap s) (heap s2)"
    by (blast intro: heap_mono_trans)
  from open_all_effect[OF completes(1-3), of s2 sigs] completes(8)
  obtain new where "list_all fresh new" "heap s3 = heap s2 @ new" by auto
  with m completes(9) show ?thesis by (intro exI[of _ "heap s2"] exI[of _ new]) simp
qed

lemma register_strategy_heap [simp]: "heap (register_strategy s sid f) = heap s"
  by (simp add: register_strategy_def)

lemma new_engine_heap: "new_engine rs = Inr s0 \<Longrightarrow> heap s0 = []"
  by (auto simp: new_engine_def split: sum.splits)

lemma steps_heap:
  assumes "steps s s'"
  shows "length (heap s) \<le> length (heap s') \<and>
         (\<forall>a < length (heap s).
            max_favorable_excursion (heap s ! a) \<le> max_favorable_excursion (heap s' ! a) \<and>
            max_adverse_excursion (heap s' ! a) \<le> max_adverse_excursion (heap s ! a))"
  using assms
proof (induction rule: steps.induct)
  case (steps_refl s)
  show ?case by simp
next
  case (steps_register s s' sid f)
  then show ?case by simp
next
  case (steps_tick s s' t)
  from process_tick_data_heap[of s' t] obtain h2 new where
    m: "heap_mono (heap s') h2" and h: "heap (fst (process_tick_data s' t)) = h2 @ new"
    by blast
  have "max_favorable_excursion (heap s ! a)
          \<le> max_favorable_excursion (heap (fst (process_tick_data s' t)) ! a) \<and>
        max_adverse_excursion (heap (fst (process_tick_data s' t)) ! a)
          \<le> max_adverse_excursion (heap s ! a)"
    if a: "a < length (heap s)" for a
  proof -
    from a steps_tick.IH have a': "a < length (heap s')" by simp
    with m h have "heap (fst (process_tick_data s' t)) ! a = h2 ! a"
      by (simp add: heap_mono_def nth_append)
    with m a' steps_tick.IH a show ?thesis
      unfolding heap_mono_def by (metis order_trans)
  qed
  moreover from m h steps_tick.IH
  have "length (heap s) \<le> length (heap (fst (process_tick_data s' t)))"
    by (simp add: heap_mono_def)
  ultimately show ?case by blast
qed

lemma fresh_excursions_ok: "fresh p \<Longrightarrow> excursions_ok p"
  by (simp add: fresh_def excursions_ok_def)

lemma heap_mono_excursions_ok:
  assumes "heap_mono h h2" "list_all excursions_ok h"
  shows "list_all excursions_ok h2"
proof -
  have "excursions_ok (h2 ! a)" if "a < length h2" for a
  proof -
    from that assms(1) have a: "a < length h" by (simp add: heap_mono_def)
    with assms(2) have "excursions_ok (h ! a)" by (simp add: list_all_length)
    with assms(1) a show ?thesis
      unfolding heap_mono_def excursions_ok_def by (metis order_trans)
  qed
  then show ?thesis by (simp add: list_all_length)
qed

lemma steps_excursions_ok:
  assumes "steps s s'" "list_all excursions_ok (heap s)"
  shows "list_all excursions_ok (heap s')"
  using assms
proof (induction rule: steps.induct)
  case (steps_refl s)
  then show ?case by simp
next
  case (steps_register s s' sid f)
  then show ?case by simp
next
  case (steps_tick s s' t)
  from process_tick_data_heap[of s' t] obtain h2 new where
    m: "heap_mono (heap s') h2" and h: "heap (fst (process_tick_data s' t)) = h2 @ new"
    and n: "list_all fresh new"
    by blast
  from steps_tick have "list_all excursions_ok (heap s')" by simp
  with m have "list_all excursions_ok h2" by (rule heap_mono_excursions_ok)
  moreover from n have "list_all excursions_ok new"
    by (simp add: list_all_iff fresh_excursions_ok)
  ultimately show ?case by (simp add: h)
qed

lemma tick_new_positions:
  assumes "length (heap s) \<le> a" "a < length (heap (fst (process_tick_data s t)))"
  shows "fresh (heap (fst (process_tick_data s t)) ! a)"
proof -
  from process_tick_data_heap[of s t] obtain h2 new where
    m: "heap_mono (heap s) h2" and h: "heap (fst (process_tick_data s t)) = h2 @ new"
    and n: "list_all fresh new"
    by blast
  from m have l: "length h2 = length (heap s)" by (simp add: heap_mono_def)
  with assms h have "heap (fst (process_tick_data s t)) ! a = new ! (a - length h2)"
    "a - length h2 < length new"
    by (simp_all add: nth_append)
  with n show ?thesis by (simp add: list_all_length)
qed

text \<open>
  Claim C4. Position objects are created by \<open>open_position\<close> only, and an object created
  during a tick ends the tick with MFE 0 and MAE 0. From then on, over any run of
  registrations and ticks (also ticks that raise), the object's MFE never decreases and its
  MAE never increases; and in every engine reached from a fresh one, every object ever
  created has MFE at least 0 and MAE at most 0.
\<close>

theorem excursions_lifetime:
  "(steps s s' \<and> a < length (heap s) \<longrightarrow>
      a < length (heap s') \<and>
      max_favorable_excursion (heap s ! a) \<le> max_favorable_excursion (heap s' ! a) \<and>
      max_adverse_excursion (heap s' ! a) \<le> max_adverse_excursion (heap s ! a)) \<and>
   (new_engine rs = Inr s0 \<and> steps s0 s \<and> a < length (heap s) \<longrightarrow>
      0 \<le> max_favorable_excursion (heap s ! a) \<and> max_adverse_excursion (heap s ! a) \<le> 0) \<and>
   (length (heap s) \<le> a \<and> a < length (heap (fst (process_tick_data s t))) \<longrightarrow>
      max_favorable_excursion (heap (fst (process_tick_data s t)) ! a) = 0 \<and>
      max_adverse_excursion (heap (fst (process_tick_data s t)) ! a) = 0) \<and>
   heap (register_strategy s sid f) = heap s \<and>
   (new_engine rs = Inr s0 \<longrightarrow> heap s0 = [])"
proof -
  have "0 \<le> max_favorable_excursion (heap s ! a) \<and> max_adverse_excursion (heap s ! a) \<le> 0"
    if "new_engine rs = Inr s0" "steps s0 s" "a < length (heap s)"
  proof -
    from that(1) have "list_all excursions_ok (heap s0)" by (simp add: new_engine_heap)
    with that(2) have "list_all excursions_ok (heap s)" by (rule steps_excursions_ok)
    with that(3) show ?thesis by (simp add: list_all_length excursions_ok_def)
  qed
  moreover have "max_favorable_excursion (heap (fst (process_tick_data s t)) ! a) = 0 \<and>
      max_adverse_excursion (heap (fst (process_tick_data s t)) ! a) = 0"
    if "length (heap s) \<le> a" "a < length (heap (fst (process_tick_data s t)))"
    using tick_new_positions[OF that] by (simp add: fresh_def)
  moreover have "a < length (heap s') \<and>
      max_favorable_excursion (heap s ! a) \<le> max_favorable_excursion (heap s' ! a) \<and>
      max_adverse_excursion (heap s' ! a) \<le> max_adverse_excursion (heap s ! a)"
    if "steps s s'" "a < length (heap s)"
    using steps_heap[OF that(1)] that(2) by auto
  ultimately show ?thesis
    using new_engine_heap[of rs s0] by (simp del: One_nat_def)
qed

theorem excursions_lifetime_witness:
  "new_engine [(''mfe_exit_threshold'', 1 / 2)] = Inr (engine_with [] []) \<and>
   steps (engine_with [] []) after_open_A \<and>
   steps after_open_A after_ticks_110_95 \<and>
   0 < length (heap after_open_A) \<and>
   max_favorable_excursion (heap after_open_A ! 0) = 0 \<and>
   max_adverse_excursion (heap after_open_A ! 0) = 0 \<and>
   max_favorable_excursion (heap after_ticks_110_95 ! 0) = 10 \<and>
   max_adverse_excursion (heap after_ticks_110_95 ! 0) = - 5 \<and>
   0 \<le> max_favorable_excursion (heap after_ticks_110_95 ! 0) \<and>
   max_adverse_excursion (heap after_ticks_110_95 ! 0) \<le> 0"
proof -
  have n: "new_engine [(''mfe_exit_threshold'', 1 / 2)] = Inr (engine_with [] [])"
    by (simp add: new_engine_def PortfolioEvaluator_init_def engine_with_def)
  have "register_strategy (engine_with [] []) ''S'' buy_A_once =
      engine_with [(''S'', buy_A_once)] []"
    by (simp add: register_strategy_def engine_with_def)
  with steps_tick[OF steps_register[OF steps_refl],
      of "engine_with [] []" "''S''" buy_A_once "mk_tick ''A'' 100 1"]
  have s1: "steps (engine_with [] []) after_open_A"
    by (simp add: after_open_A_def)
  have s2: "steps after_open_A after_ticks_110_95"
    unfolding after_ticks_110_95_def after_tick_110_def by (intro steps_tick steps_refl)
  from steps.intros(3)[OF s1, of "mk_tick ''A'' 110 2"]
  have "steps (engine_with [] []) (fst (process_tick_data after_open_A (mk_tick ''A'' 110 2)))" .
  from steps.intros(3)[OF this, of "mk_tick ''A'' 95 3"]
  have s3: "steps (engine_with [] []) after_ticks_110_95"
    by (simp add: after_ticks_110_95_def after_tick_110_def)
  have l: "0 < length (heap after_open_A)"
    and v: "max_favorable_excursion (heap after_open_A ! 0) = 0"
      "max_adverse_excursion (heap after_open_A ! 0) = 0"
    by (simp_all add: after_open_A_def run_simps)
  have w: "max_favorable_excursion (heap after_ticks_110_95 ! 0) = 10"
      "max_adverse_excursion (heap after_ticks_110_95 ! 0) = - 5"
    by (simp_all add: after_ticks_110_95_def after_tick_110_def after_open_A_def run_simps)
  note th = excursions_lifetime[where a = 0 and rs = "[(''mfe_exit_threshold'', 1 / 2)]"
      and ?s0.0 = "engine_with [] []"]
  from th[where s = after_open_A and s' = after_ticks_110_95, THEN conjunct1] s2 l
  have "max_favorable_excursion (heap after_open_A ! 0)
          \<le> max_favorable_excursion (heap after_ticks_110_95 ! 0)"
    by blast
  moreover from th[where s = after_ticks_110_95, THEN conjunct2, THEN conjunct1] n s3 w
  have "0 \<le> max_favorable_excursion (heap after_ticks_110_95 ! 0) \<and>
        max_adverse_excursion (heap after_ticks_110_95 ! 0) \<le> 0"
    by simp
  ultimately show ?thesis using n s1 s2 l v w by simp
qed

subsection \<open>The order of the steps of a tick\<close>

lemma heap_mono_length: "heap_mono h h' \<Longrightarrow> length h' = length h"
  by (simp add: heap_mono_def)

text \<open>
  A completed tick, step by step: what each of the three mutating steps leaves of the
  store, the active list and the history.
\<close>

lemma completed_tick:
  assumes "process_tick_data s t = (s', Inr m)"
  obtains s1 exits s2 sigs ts where
    "tick_timestamp t = Some ts"
    "update_positions s t = (s1, None)"
    "evaluate_exit_conditions s1 = Inr exits"
    "close_all s1 t exits = (s2, None)"
    "process_tick s2 t = Inr sigs"
    "open_all s2 t sigs = (s', None)"
    "m = calculate_portfolio_metrics s'"
    "active_positions s1 = active_positions s"
    "length (heap s2) = length (heap s)"
    "fst ` set exits \<subseteq> set (active_positions s)"
    "set (active_positions s2) \<subseteq> set (active_positions s)"
    "trade_history s2 = trade_history s @ map (close_entry ts) exits"
    "active_positions s' = active_positions s2 @ [length (heap s)..<length (heap s')]"
    "trade_history s' =
       trade_history s2 @ map (open_entry ts) [length (heap s)..<length (heap s')]"
    "length (heap s) \<le> length (heap s')"
proof (cases rule: process_tick_data_course[of s t])
  case (completes smb px ts s1 exits s2 sigs s3)
  from completes(9) assms have s3: "s3 = s'" and m: "m = calculate_portfolio_metrics s'"
    by simp_all
  from update_positions_fields[of s t] completes(4)
  have a1: "active_positions s1 = active_positions s"
    and h1: "trade_history s1 = trade_history s" by simp_all
  from update_positions_heap(2)[OF completes(2), of s] completes(4)
  have l1: "length (heap s1) = length (heap s)" by simp
  note c = close_all_effect[OF completes(6), where ts = ts]
  from c have "heap_mono (heap s1) (heap s2)" by simp
  from heap_mono_length[OF this] l1 have l2: "length (heap s2) = length (heap s)"
    by simp
  from evaluate_exit_conditions_refs[OF completes(5)] a1
  have e: "fst ` set exits \<subseteq> set (active_positions s)" by simp
  from c a1 have a2: "set (active_positions s2) \<subseteq> set (active_positions s)" by simp
  from c completes(3) h1
  have h2: "trade_history s2 = trade_history s @ map (close_entry ts) exits" by simp
  from open_all_effect[OF completes(1-3), of s2 sigs] completes(8) s3 l2
  obtain new where "heap s' = heap s2 @ new"
    and "active_positions s' = active_positions s2 @ [length (heap s)..<length (heap s) + length new]"
    and "trade_history s' = trade_history s2 @
           map (open_entry ts) [length (heap s)..<length (heap s) + length new]"
    by auto
  with l2 have a3: "active_positions s' = active_positions s2 @ [length (heap s)..<length (heap s')]"
    and h3: "trade_history s' =
       trade_history s2 @ map (open_entry ts) [length (heap s)..<length (heap s')]"
    and l3: "length (heap s) \<le> length (heap s')"
    by simp_all
  from completes(3,4,5,6,7) completes(8)[unfolded s3] m a1 l2 e a2 h2 a3 h3 l3
  show ?thesis by (rule that)
qed (use assms in simp_all)

text \<open>Valid references stay valid: fresh engines have them, and every step keeps them.\<close>

lemma new_engine_wf: "new_engine rs = Inr s0 \<Longrightarrow> wf s0"
  by (auto simp: new_engine_def wf_def split: sum.splits)

lemma register_strategy_wf: "wf s \<Longrightarrow> wf (register_strategy s sid f)"
  by (simp add: register_strategy_def wf_def)

lemma process_tick_data_wf:
  assumes "wf s"
  shows "wf (fst (process_tick_data s t))"
proof -
  from assms have old: "\<And>a. a \<in> set (active_positions s) \<Longrightarrow> a < length (heap s)"
    by (simp add: wf_def list_all_iff)
  have same: "wf s2" if "length (heap s2) = length (heap s)"
    "set (active_positions s2) \<subseteq> set (active_positions s)" for s2
    using that old by (auto simp: wf_def list_all_iff)
  show ?thesis
  proof (cases rule: process_tick_data_course[of s t])
    case (invalid e)
    with assms show ?thesis by simp
  next
    case (evaluation_raises smb px ts s1 e)
    from update_positions_fields(1)[of s t] update_positions_heap(2)[OF evaluation_raises(2), of s]
      evaluation_raises(4)
    have "wf s1" by (intro same) simp_all
    with evaluation_raises(6) show ?thesis by simp
  next
    case (close_raises smb px ts s1 exits s2 e)
    from update_positions_fields(1)[of s t] update_positions_heap(2)[OF close_raises(2), of s]
      close_raises(4) close_all_effect[OF close_raises(6)]
    have "wf s2" by (intro same) (simp_all add: heap_mono_def)
    with close_raises(7) show ?thesis by simp
  next
    case (strategy_raises smb px ts s1 exits s2 e)
    from update_positions_fields(1)[of s t] update_positions_heap(2)[OF strategy_raises(2), of s]
      strategy_raises(4) close_all_effect[OF strategy_raises(6)]
    have "wf s2" by (intro same) (simp_all add: heap_mono_def)
    with strategy_raises(8) show ?thesis by simp
  next
    case (completes smb px ts s1 exits s2 sigs s3)
    from completes(9) obtain m where p: "process_tick_data s t = (s3, Inr m)" by simp
    have "wf s3"
    proof (rule completed_tick[OF p])
      fix s2' :: engine
      assume "length (heap s2') = length (heap s)"
        and "set (active_positions s2') \<subseteq> set (active_positions s)"
        and "active_positions s3 = active_positions s2' @ [length (heap s)..<length (heap s3)]"
        and "length (heap s) \<le> length (heap s3)"
      with old show "wf s3"
        by (fastforce simp: wf_def list_all_iff)
    qed
    with p show ?thesis by simp
  qed
qed

lemma steps_wf: "steps s s' \<Longrightarrow> wf s \<Longrightarrow> wf s'"
  by (induction rule: steps.induct) (simp_all add: register_strategy_wf process_tick_data_wf)

text \<open>
  Claim C8. In a tick that completes, the exits are evaluated on the engine that
  \<open>update_positions\<close> returned for this tick; every flagged position is closed, and its
  \<^verbatim>\<open>CLOSE\<close> record appended, before the strategies are dispatched; the positions opened
  from the signals come after, at the end of the active list and of the history. A position
  opened by the tick is a new object: it is not among the flagged ones, it is active when the
  tick returns, and it carries no exit reason.
\<close>

theorem same_tick_open_not_closed:
  "wf s \<and> process_tick_data s t = (s', Inr m) \<longrightarrow>
     (\<exists>s1 exits s2 sigs ts.
        tick_timestamp t = Some ts \<and>
        update_positions s t = (s1, None) \<and>
        evaluate_exit_conditions s1 = Inr exits \<and>
        close_all s1 t exits = (s2, None) \<and>
        process_tick s2 t = Inr sigs \<and>
        open_all s2 t sigs = (s', None) \<and>
        list_all (\<lambda>x. fst x < length (heap s)) exits \<and>
        list_all (\<lambda>a. a < length (heap s)) (active_positions s2) \<and>
        trade_history s2 = trade_history s @ map (close_entry ts) exits \<and>
        active_positions s' = active_positions s2 @ [length (heap s)..<length (heap s')] \<and>
        trade_history s' =
          trade_history s2 @ map (open_entry ts) [length (heap s)..<length (heap s')] \<and>
        (\<forall>a. length (heap s) \<le> a \<and> a < length (heap s') \<longrightarrow>
           a \<in> set (active_positions s') \<and> a \<notin> fst ` set exits \<and>
           exit_reason (heap s' ! a) = None))"
proof (intro impI, elim conjE)
  assume wf: "wf s" and p: "process_tick_data s t = (s', Inr m)"
  from p obtain s1 exits s2 sigs ts where c:
    "tick_timestamp t = Some ts"
    "update_positions s t = (s1, None)"
    "evaluate_exit_conditions s1 = Inr exits"
    "close_all s1 t exits = (s2, None)"
    "process_tick s2 t = Inr sigs"
    "open_all s2 t sigs = (s', None)"
    "m = calculate_portfolio_metrics s'"
    "active_positions s1 = active_positions s"
    "length (heap s2) = length (heap s)"
    "fst ` set exits \<subseteq> set (active_positions s)"
    "set (active_positions s2) \<subseteq> set (active_positions s)"
    "trade_history s2 = trade_history s @ map (close_entry ts) exits"
    "active_positions s' = active_positions s2 @ [length (heap s)..<length (heap s')]"
    "trade_history s' =
       trade_history s2 @ map (open_entry ts) [length (heap s)..<length (heap s')]"
    "length (heap s) \<le> length (heap s')"
    by (rule completed_tick)
  from wf have old: "\<And>a. a \<in> set (active_positions s) \<Longrightarrow> a < length (heap s)"
    by (simp add: wf_def list_all_iff)
  from c(10) old have e: "list_all (\<lambda>x. fst x < length (heap s)) exits"
    by (auto simp: list_all_iff)
  from c(11) old have a2: "list_all (\<lambda>a. a < length (heap s)) (active_positions s2)"
    by (auto simp: list_all_iff)
  have new: "a \<in> set (active_positions s') \<and> a \<notin> fst ` set exits \<and>
           exit_reason (heap s' ! a) = None"
    if "length (heap s) \<le> a \<and> a < length (heap s')" for a
  proof -
    from that c(13) have "a \<in> set (active_positions s')" by simp
    moreover from that e have "a \<notin> fst ` set exits" by (auto simp: list_all_iff)
    moreover from p have "s' = fst (process_tick_data s t)" by simp
    with tick_new_positions[of s a t] that have "exit_reason (heap s' ! a) = None"
      by (simp add: fresh_def)
    ultimately show ?thesis by simp
  qed
  from c(1-6) e a2 c(12-14) new
  show "\<exists>s1 exits s2 sigs ts.
        tick_timestamp t = Some ts \<and>
        update_positions s t = (s1, None) \<and>
        evaluate_exit_conditions s1 = Inr exits \<and>
        close_all s1 t exits = (s2, None) \<and>
        process_tick s2 t = Inr sigs \<and>
        open_all s2 t sigs = (s', None) \<and>
        list_all (\<lambda>x. fst x < length (heap s)) exits \<and>
        list_all (\<lambda>a. a < length (heap s)) (active_positions s2) \<and>
        trade_history s2 = trade_history s @ map (close_entry ts) exits \<and>
        active_positions s' = active_positions s2 @ [length (heap s)..<length (heap s')] \<and>
        trade_history s' =
          trade_history s2 @ map (open_entry ts) [length (heap s)..<length (heap s')] \<and>
        (\<forall>a. length (heap s) \<le> a \<and> a < length (heap s') \<longrightarrow>
           a \<in> set (active_positions s') \<and> a \<notin> fst ` set exits \<and>
           exit_reason (heap s' ! a) = None)"
    by blast
qed

theorem same_tick_open_not_closed_witness:
  "wf after_tick_110 \<and>
   process_tick_data after_tick_110 (mk_tick ''A'' 95 3) =
     (after_ticks_110_95,
      Inr \<lparr>total_positions = 1, net_exposure = 1, total_profit_loss = 0, max_drawdown = 0,
           strategy_correlation = []\<rparr>) \<and>
   active_positions after_tick_110 = [0] \<and>
   length (heap after_tick_110) = 1 \<and>
   length (heap after_ticks_110_95) = 2 \<and>
   active_positions after_ticks_110_95 = [1] \<and>
   exit_reason (heap after_ticks_110_95 ! 0) = Some ''MFE_TRAILING_STOP'' \<and>
   exit_reason (heap after_ticks_110_95 ! 1) = None \<and>
   map (\<lambda>e. (h_action e, h_position e)) (trade_history after_ticks_110_95) =
     [(''OPEN'', 0), (''CLOSE'', 0), (''OPEN'', 1)]"
proof -
  have w: "wf after_tick_110"
    and a: "active_positions after_tick_110 = [0]"
    and l: "length (heap after_tick_110) = 1"
    by (simp_all add: wf_def after_tick_110_def after_open_A_def run_simps)
  have p: "process_tick_data after_tick_110 (mk_tick ''A'' 95 3) =
     (after_ticks_110_95,
      Inr \<lparr>total_positions = 1, net_exposure = 1, total_profit_loss = 0, max_drawdown = 0,
           strategy_correlation = []\<rparr>)"
    by (simp add: after_ticks_110_95_def after_tick_110_def after_open_A_def run_simps)
  have l': "length (heap after_ticks_110_95) = 2"
    and x: "exit_reason (heap after_ticks_110_95 ! 0) = Some ''MFE_TRAILING_STOP''"
    and h: "map (\<lambda>e. (h_action e, h_position e)) (trade_history after_ticks_110_95) =
     [(''OPEN'', 0), (''CLOSE'', 0), (''OPEN'', 1)]"
    by (simp_all add: after_ticks_110_95_def after_tick_110_def after_open_A_def run_simps)
  from same_tick_open_not_closed[of after_tick_110 "mk_tick ''A'' 95 3" after_ticks_110_95,
      THEN mp, OF conjI, OF w p]
  have n: "\<exists>exits :: (ref \<times> string) list. \<forall>a. length (heap after_tick_110) \<le> a \<and> a < length (heap after_ticks_110_95) \<longrightarrow>
           a \<in> set (active_positions after_ticks_110_95) \<and> a \<notin> fst ` set exits \<and>
           exit_reason (heap after_ticks_110_95 ! a) = None"
    by (elim exE conjE) (rule exI, assumption)
  then obtain exits :: "(ref \<times> string) list" where n: "\<forall>a. length (heap after_tick_110) \<le> a \<and> a < length (heap after_ticks_110_95) \<longrightarrow>
           a \<in> set (active_positions after_ticks_110_95) \<and> a \<notin> fst ` set exits \<and>
           exit_reason (heap after_ticks_110_95 ! a) = None" ..
  from n[rule_format, of 1] l l'
  have o: "1 \<in> set (active_positions after_ticks_110_95)"
    "exit_reason (heap after_ticks_110_95 ! 1) = None"
    by simp_all
  have "active_positions after_ticks_110_95 = [1]"
    by (simp add: after_ticks_110_95_def after_tick_110_def after_open_A_def run_simps)
  with w p a l l' x h o show ?thesis by simp
qed

subsection \<open>A strategy that raises\<close>

text \<open>
  Claim C5, as the code has it. \<open>process_tick\<close> calls the strategies with no handler
  around the call: when a strategy raises, the exception leaves \<open>process_tick\<close> at once,
  whatever strategies are registered after it, and leaves \<open>process_tick_data\<close> too. The
  engine stays as the update and the closes of this tick left it; no position is opened and
  no metrics are returned.
\<close>

theorem dispatch_stops_at_raise:
  "(strategies s = pre @ (sid, f) # post \<and>
    list_all (\<lambda>e. \<exists>r. snd e t (get_strategy_positions s (fst e)) = Inr r) pre \<and>
    f t (get_strategy_positions s sid) = Inl e \<longrightarrow>
      process_tick s t = Inl e) \<and>
   (check_fields t [''symbol'', ''price'', ''timestamp''] = None \<and>
    update_positions s t = (s1, None) \<and>
    evaluate_exit_conditions s1 = Inr exits \<and>
    close_all s1 t exits = (s2, None) \<and>
    process_tick s2 t = Inl e \<longrightarrow>
      process_tick_data s t = (s2, Inl e) \<and>
      length (heap s2) = length (heap s) \<and>
      set (active_positions s2) \<subseteq> set (active_positions s))"
proof -
  have "length (heap s2) = length (heap s) \<and>
        set (active_positions s2) \<subseteq> set (active_positions s)"
    if v: "check_fields t [''symbol'', ''price'', ''timestamp''] = None"
      and u: "update_positions s t = (s1, None)"
      and c: "close_all s1 t exits = (s2, None)"
  proof -
    from v obtain smb px ts where "tick_price t = Some px" by (rule valid_tick_fields)
    from update_positions_heap(2)[OF this, of s] u
    have "length (heap s1) = length (heap s)" by simp
    moreover from update_positions_fields(1)[of s t] u
    have "active_positions s1 = active_positions s" by simp
    moreover from close_all_effect[OF c]
    have "heap_mono (heap s1) (heap s2)"
      "set (active_positions s2) \<subseteq> set (active_positions s1)" by simp_all
    ultimately show ?thesis by (simp add: heap_mono_def)
  qed
  then show ?thesis
    by (auto simp: process_tick_def dispatch_raise process_tick_data_def)
qed

theorem dispatch_stops_at_raise_witness:
  "strategies raise_then_buy = [] @ (''A'', raising) # [(''B'', always_buy)] \<and>
   process_tick raise_then_buy (mk_tick ''X'' 10 1) = Inl (OtherError ''boom'') \<and>
   process_tick_data raise_then_buy (mk_tick ''X'' 10 1) =
     (raise_then_buy, Inl (OtherError ''boom''))"
proof -
  have s: "strategies raise_then_buy = [] @ (''A'', raising) # [(''B'', always_buy)]"
    by (simp add: raise_then_buy_def engine_with_def)
  note th = dispatch_stops_at_raise
    [where s = raise_then_buy and t = "mk_tick ''X'' 10 1" and pre = "[]" and sid = "''A''"
       and f = raising and post = "[(''B'', always_buy)]" and e = "OtherError ''boom''"
       and ?s1.0 = raise_then_buy and ?s2.0 = raise_then_buy and exits = "[]"]
  have p: "process_tick raise_then_buy (mk_tick ''X'' 10 1) = Inl (OtherError ''boom'')"
    using th[THEN conjunct1] s by (simp add: raising_def)
  have "process_tick_data raise_then_buy (mk_tick ''X'' 10 1) =
     (raise_then_buy, Inl (OtherError ''boom''))"
    using th[THEN conjunct2] p
    by (simp add: raise_then_buy_def engine_with_def mk_tick_def tick_has_def
        update_positions_def evaluate_exit_conditions_def)
  with s p show ?thesis by simp
qed

text \<open>
  Strategy A raises and strategy B, registered after it, would buy: dispatch ends with A's
  exception, the tick ends with it, and B's signal is never produced.
\<close>

theorem raising_strategy_aborts_dispatch:
  "process_tick raise_then_buy (mk_tick ''X'' 10 1) = Inl (OtherError ''boom'') \<and>
   process_tick_data raise_then_buy (mk_tick ''X'' 10 1) =
     (raise_then_buy, Inl (OtherError ''boom'')) \<and>
   process_tick (raise_then_buy\<lparr>strategies := [(''B'', always_buy)]\<rparr>) (mk_tick ''X'' 10 1) =
     Inr [(''B'', \<lparr>action = ''BUY'', signal_size = 1\<rparr>)]"
  by (simp add: raise_then_buy_def run_simps)

end
